theory Spec2Isabelle
  imports Main "HOL-Library.Word"
begin

unbundle bit_operations_syntax

section \<open>Bytes and JavaScript strings\<close>

text \<open>
  The route handler \<^verbatim>\<open>src/app/api/chat/route.js\<close> receives the upstream body as
  \<^verbatim>\<open>Uint8Array\<close> chunks and works on JavaScript strings, which are sequences of
  UTF-16 code units. Both are modelled at their machine width.
\<close>

type_synonym byte = "8 word"
type_synonym code_unit = "16 word"
type_synonym jstring = "code_unit list"

text \<open>An ASCII literal of the source, as a JavaScript string and as bytes on the wire.\<close>

definition js :: "string \<Rightarrow> jstring" where
  "js s = map of_char s"

definition wire :: "string \<Rightarrow> byte list" where
  "wire s = map of_char s"

definition newline :: code_unit where
  "newline = 0x0A"

section \<open>The platform's TextDecoder, streaming mode\<close>

text \<open>
  \<^verbatim>\<open>createParser\<close> is handed \<^verbatim>\<open>new TextDecoder()\<close> and only ever calls
  \<^verbatim>\<open>textDecoder.decode(chunk, { stream: true })\<close>. That is the UTF-8 decoder of the
  WHATWG Encoding standard in replacement mode: the decoder keeps its state between
  calls, is never flushed, replaces every ill-formed sequence by U+FFFD and drops a
  byte order mark at the very start of the stream.
\<close>

record decoder =
  code_point :: "32 word"
  bytes_seen :: nat
  bytes_needed :: nat
  lower_boundary :: byte
  upper_boundary :: byte
  bom_seen :: bool

definition new_TextDecoder :: decoder where
  "new_TextDecoder = \<lparr>code_point = 0, bytes_seen = 0, bytes_needed = 0,
     lower_boundary = 0x80, upper_boundary = 0xBF, bom_seen = False\<rparr>"

definition reset_sequence :: "decoder \<Rightarrow> decoder" where
  "reset_sequence d = d\<lparr>code_point := 0, bytes_seen := 0, bytes_needed := 0,
     lower_boundary := 0x80, upper_boundary := 0xBF\<rparr>"

text \<open>A byte arriving while no sequence is open.\<close>

definition lead_byte :: "decoder \<Rightarrow> byte \<Rightarrow> decoder \<times> 32 word list" where
  "lead_byte d b =
     (if b \<le> 0x7F then (d, [ucast b])
      else if 0xC2 \<le> b \<and> b \<le> 0xDF then
        (d\<lparr>code_point := ucast (b AND 0x1F), bytes_needed := 1\<rparr>, [])
      else if 0xE0 \<le> b \<and> b \<le> 0xEF then
        (d\<lparr>code_point := ucast (b AND 0x0F), bytes_needed := 2,
           lower_boundary := (if b = 0xE0 then 0xA0 else lower_boundary d),
           upper_boundary := (if b = 0xED then 0x9F else upper_boundary d)\<rparr>, [])
      else if 0xF0 \<le> b \<and> b \<le> 0xF4 then
        (d\<lparr>code_point := ucast (b AND 0x07), bytes_needed := 3,
           lower_boundary := (if b = 0xF0 then 0x90 else lower_boundary d),
           upper_boundary := (if b = 0xF4 then 0x8F else upper_boundary d)\<rparr>, [])
      else (d, [0xFFFD]))"

text \<open>
  The decoder's handler for one byte. A byte outside the expected range ends the open
  sequence with U+FFFD and is then read again as a lead byte.
\<close>

definition utf8_handler :: "decoder \<Rightarrow> byte \<Rightarrow> decoder \<times> 32 word list" where
  "utf8_handler d b =
     (if bytes_needed d = 0 then lead_byte d b
      else if b < lower_boundary d \<or> upper_boundary d < b then
        (let (d', out) = lead_byte (reset_sequence d) b in (d', 0xFFFD # out))
      else
        (let cp = push_bit 6 (code_point d) OR ucast (b AND 0x3F);
             seen = bytes_seen d + 1
         in if seen \<noteq> bytes_needed d then
              (d\<lparr>code_point := cp, bytes_seen := seen,
                 lower_boundary := 0x80, upper_boundary := 0xBF\<rparr>, [])
            else (reset_sequence d, [cp])))"

text \<open>A scalar value as UTF-16 code units.\<close>

definition utf16 :: "32 word \<Rightarrow> jstring" where
  "utf16 cp =
     (if cp < 0x10000 then [ucast cp]
      else (let v = cp - 0x10000
            in [0xD800 + ucast (drop_bit 10 v), 0xDC00 + ucast (v AND 0x3FF)]))"

text \<open>Appending decoded scalar values to the output: the first one is dropped if it is a BOM.\<close>

fun serialize :: "decoder \<Rightarrow> 32 word list \<Rightarrow> jstring \<times> decoder" where
  "serialize d [] = ([], d)"
| "serialize d (cp # cps) =
     (if bom_seen d then
        (let (out, d') = serialize d cps in (utf16 cp @ out, d'))
      else
        (let (out, d') = serialize (d\<lparr>bom_seen := True\<rparr>) cps
         in (if cp = 0xFEFF then out else utf16 cp @ out, d')))"

text \<open>\<^verbatim>\<open>textDecoder.decode(chunk, { stream: true })\<close>: the text and the decoder afterwards.\<close>

fun decode :: "decoder \<Rightarrow> byte list \<Rightarrow> jstring \<times> decoder" where
  "decode d [] = ([], d)"
| "decode d (b # bs) =
     (let (d1, cps) = utf8_handler d b;
          (out, d2) = serialize d1 cps;
          (rest, d3) = decode d2 bs
      in (out @ rest, d3))"

section \<open>String operations of the language\<close>

text \<open>
  \<^verbatim>\<open>String.prototype.trim\<close> removes WhiteSpace and LineTerminator code units from
  both ends.
\<close>

definition is_white :: "code_unit \<Rightarrow> bool" where
  "is_white c \<longleftrightarrow>
     c = 0x09 \<or> c = 0x0A \<or> c = 0x0B \<or> c = 0x0C \<or> c = 0x0D \<or> c = 0x20 \<or> c = 0xA0 \<or>
     c = 0x1680 \<or> (0x2000 \<le> c \<and> c \<le> 0x200A) \<or> c = 0x2028 \<or> c = 0x2029 \<or>
     c = 0x202F \<or> c = 0x205F \<or> c = 0x3000 \<or> c = 0xFEFF"

definition trim :: "jstring \<Rightarrow> jstring" where
  "trim s = rev (dropWhile is_white (rev (dropWhile is_white s)))"

text \<open>\<^verbatim>\<open>s.startsWith(p)\<close> and \<^verbatim>\<open>s.slice(n)\<close> for \<open>n \<ge> 0\<close>.\<close>

definition startsWith :: "jstring \<Rightarrow> jstring \<Rightarrow> bool" where
  "startsWith s p \<longleftrightarrow> take (length p) s = p"

definition slice :: "jstring \<Rightarrow> nat \<Rightarrow> jstring" where
  "slice s n = drop n s"

text \<open>
  \<^verbatim>\<open>s.split("\n")\<close>: the segments between newlines, one more than there are newlines;
  the result is never empty.
\<close>

fun split_newline :: "jstring \<Rightarrow> jstring list" where
  "split_newline [] = [[]]"
| "split_newline (c # cs) =
     (let segs = split_newline cs
      in if c = newline then [] # segs else (c # hd segs) # tl segs)"

section \<open>JavaScript values and the platform's JSON.parse\<close>

text \<open>
  The values \<^verbatim>\<open>JSON.parse\<close> can return, and \<^verbatim>\<open>undefined\<close>, which property access
  adds. A number is kept as the decimal the text denotes, mantissa times a power of
  ten; an object keeps its members in the order of the text.
\<close>

datatype jsval =
    JUndefined
  | JNull
  | JBoolean bool
  | JNumber int int
  | JString jstring
  | JArray "jsval list"
  | JObject "(jstring \<times> jsval) list"

datatype js_error = SyntaxError | TypeError

datatype token =
    LBrace | RBrace | LBracket | RBracket | Colon | Comma
  | TString jstring | TNumber int int | TTrue | TFalse | TNull

definition is_digit :: "code_unit \<Rightarrow> bool" where
  "is_digit c \<longleftrightarrow> 0x30 \<le> c \<and> c \<le> 0x39"

definition decimal :: "jstring \<Rightarrow> nat" where
  "decimal ds = foldl (\<lambda>n c. 10 * n + unat (c - 0x30)) 0 ds"

definition hex_digit :: "code_unit \<Rightarrow> code_unit option" where
  "hex_digit c =
     (if 0x30 \<le> c \<and> c \<le> 0x39 then Some (c - 0x30)
      else if 0x41 \<le> c \<and> c \<le> 0x46 then Some (c - 0x37)
      else if 0x61 \<le> c \<and> c \<le> 0x66 then Some (c - 0x57)
      else None)"

definition hex4 :: "code_unit \<Rightarrow> code_unit \<Rightarrow> code_unit \<Rightarrow> code_unit \<Rightarrow> code_unit option" where
  "hex4 a b c d =
     (case (hex_digit a, hex_digit b, hex_digit c, hex_digit d) of
        (Some h3, Some h2, Some h1, Some h0) \<Rightarrow>
          Some (push_bit 12 h3 OR push_bit 8 h2 OR push_bit 4 h1 OR h0)
      | _ \<Rightarrow> None)"

text \<open>The single-character escapes of a JSON string.\<close>

definition escape :: "code_unit \<Rightarrow> code_unit option" where
  "escape e =
     (if e = 0x22 \<or> e = 0x5C \<or> e = 0x2F then Some e
      else if e = 0x62 then Some 0x08
      else if e = 0x66 then Some 0x0C
      else if e = 0x6E then Some 0x0A
      else if e = 0x72 then Some 0x0D
      else if e = 0x74 then Some 0x09
      else None)"

text \<open>
  The inside of a string literal, read after its opening quote: the string denoted and
  the number of code units read, closing quote included. Control characters must be
  escaped.
\<close>

fun lex_string :: "jstring \<Rightarrow> (jstring \<times> nat) option" where
  "lex_string [] = None"
| "lex_string (c # cs) =
     (if c = 0x22 then Some ([], 1)
      else if c = 0x5C then
        (case cs of
           [] \<Rightarrow> None
         | e # cs' \<Rightarrow>
             (if e = 0x75 then
                (case cs' of
                   a # b # c' # d # cs'' \<Rightarrow>
                     (case (hex4 a b c' d, lex_string cs'') of
                        (Some u, Some (s, k)) \<Rightarrow> Some (u # s, k + 6)
                      | _ \<Rightarrow> None)
                 | _ \<Rightarrow> None)
              else
                (case (escape e, lex_string cs') of
                   (Some u, Some (s, k)) \<Rightarrow> Some (u # s, k + 2)
                 | _ \<Rightarrow> None)))
      else if c < 0x20 then None
      else (case lex_string cs of Some (s, k) \<Rightarrow> Some (c # s, k + 1) | None \<Rightarrow> None))"

text \<open>
  A number literal at the head of the text: an optional minus, an integer part without
  a leading zero, an optional fraction and an optional exponent. The result is the
  mantissa, the decimal exponent and the number of code units read.
\<close>

definition lex_number :: "jstring \<Rightarrow> (int \<times> int \<times> nat) option" where
  "lex_number s =
     (let neg = (take 1 s = js ''-'');
          s1 = (if neg then drop 1 s else s);
          ip = takeWhile is_digit s1;
          s2 = drop (length ip) s1;
          has_frac = (take 1 s2 = js ''.'');
          fp = (if has_frac then takeWhile is_digit (drop 1 s2) else []);
          s3 = (if has_frac then drop (1 + length fp) s2 else s2);
          has_exp = (take 1 s3 = js ''e'' \<or> take 1 s3 = js ''E'');
          s4 = drop 1 s3;
          eneg = (take 1 s4 = js ''-'');
          s5 = (if eneg \<or> take 1 s4 = js ''+'' then drop 1 s4 else s4);
          ep = takeWhile is_digit s5;
          rest = (if has_exp then drop (length ep) s5 else s3);
          m = int (decimal (ip @ fp));
          e = int (decimal ep)
      in if ip = [] \<or> (1 < length ip \<and> hd ip = 0x30) \<or> (has_frac \<and> fp = [])
            \<or> (has_exp \<and> ep = [])
         then None
         else Some (if neg then - m else m,
                    (if has_exp then (if eneg then - e else e) else 0) - int (length fp),
                    length s - length rest))"

definition is_json_space :: "code_unit \<Rightarrow> bool" where
  "is_json_space c \<longleftrightarrow> c = 0x20 \<or> c = 0x09 \<or> c = 0x0A \<or> c = 0x0D"

text \<open>The tokens of a JSON text; \<open>None\<close> where the text has none.\<close>

function lex :: "jstring \<Rightarrow> token list option" where
  "lex [] = Some []"
| "lex (c # cs) =
     (if is_json_space c then lex cs
      else if c = 0x7B then map_option (Cons LBrace) (lex cs)
      else if c = 0x7D then map_option (Cons RBrace) (lex cs)
      else if c = 0x5B then map_option (Cons LBracket) (lex cs)
      else if c = 0x5D then map_option (Cons RBracket) (lex cs)
      else if c = 0x3A then map_option (Cons Colon) (lex cs)
      else if c = 0x2C then map_option (Cons Comma) (lex cs)
      else if c = 0x22 then
        (case lex_string cs of
           None \<Rightarrow> None
         | Some (s, k) \<Rightarrow> map_option (Cons (TString s)) (lex (drop k cs)))
      else if c = 0x2D \<or> is_digit c then
        (case lex_number (c # cs) of
           None \<Rightarrow> None
         | Some (m, e, k) \<Rightarrow> map_option (Cons (TNumber m e)) (lex (drop (k - 1) cs)))
      else if startsWith (c # cs) (js ''true'') then map_option (Cons TTrue) (lex (drop 3 cs))
      else if startsWith (c # cs) (js ''false'') then map_option (Cons TFalse) (lex (drop 4 cs))
      else if startsWith (c # cs) (js ''null'') then map_option (Cons TNull) (lex (drop 3 cs))
      else None)"
  by pat_completeness auto
termination
  by (relation "measure length") auto

text \<open>
  The grammar over tokens, with the open arrays and objects on a stack.
  \<open>parse_value\<close> expects a value; \<open>parse_after\<close> has just read one.
\<close>

datatype frame = InArray "jsval list" | InObject "(jstring \<times> jsval) list" jstring

fun parse_value :: "frame list \<Rightarrow> token list \<Rightarrow> jsval option"
  and parse_after :: "jsval \<Rightarrow> frame list \<Rightarrow> token list \<Rightarrow> jsval option" where
  "parse_value st [] = None"
| "parse_value st (t # ts) =
     (case t of
        TString s \<Rightarrow> parse_after (JString s) st ts
      | TNumber m e \<Rightarrow> parse_after (JNumber m e) st ts
      | TTrue \<Rightarrow> parse_after (JBoolean True) st ts
      | TFalse \<Rightarrow> parse_after (JBoolean False) st ts
      | TNull \<Rightarrow> parse_after JNull st ts
      | LBracket \<Rightarrow>
          (case ts of
             RBracket # ts' \<Rightarrow> parse_after (JArray []) st ts'
           | _ \<Rightarrow> parse_value (InArray [] # st) ts)
      | LBrace \<Rightarrow>
          (case ts of
             RBrace # ts' \<Rightarrow> parse_after (JObject []) st ts'
           | TString k # Colon # ts' \<Rightarrow> parse_value (InObject [] k # st) ts'
           | _ \<Rightarrow> None)
      | _ \<Rightarrow> None)"
| "parse_after v [] ts = (if ts = [] then Some v else None)"
| "parse_after v (InArray vs # st) ts =
     (case ts of
        Comma # ts' \<Rightarrow> parse_value (InArray (vs @ [v]) # st) ts'
      | RBracket # ts' \<Rightarrow> parse_after (JArray (vs @ [v])) st ts'
      | _ \<Rightarrow> None)"
| "parse_after v (InObject ms k # st) ts =
     (case ts of
        Comma # TString k' # Colon # ts' \<Rightarrow> parse_value (InObject (ms @ [(k, v)]) k' # st) ts'
      | RBrace # ts' \<Rightarrow> parse_after (JObject (ms @ [(k, v)])) st ts'
      | _ \<Rightarrow> None)"

text \<open>
  \<^verbatim>\<open>JSON.parse(text)\<close>: the value, or the SyntaxError it throws. The engine's limit on
  the depth of nesting is not modelled.
\<close>

definition JSON_parse :: "jstring \<Rightarrow> js_error + jsval" where
  "JSON_parse s =
     (case lex s of
        None \<Rightarrow> Inl SyntaxError
      | Some ts \<Rightarrow>
          (case parse_value [] ts of None \<Rightarrow> Inl SyntaxError | Some v \<Rightarrow> Inr v))"

section \<open>Property access and truthiness\<close>

text \<open>
  A number is falsy when it is zero as a double: the decimal \<open>m * 10 ^ e\<close> rounds to
  zero exactly when its magnitude is at most \<open>2 ^ - 1075\<close>, half the least subnormal.
\<close>

definition zero_as_double :: "int \<Rightarrow> int \<Rightarrow> bool" where
  "zero_as_double m e \<longleftrightarrow> m = 0 \<or> (e < 0 \<and> \<bar>m\<bar> * 2 ^ 1075 \<le> 10 ^ nat (- e))"

fun truthy :: "jsval \<Rightarrow> bool" where
  "truthy JUndefined = False"
| "truthy JNull = False"
| "truthy (JBoolean b) = b"
| "truthy (JNumber m e) = (\<not> zero_as_double m e)"
| "truthy (JString s) = (s \<noteq> [])"
| "truthy (JArray xs) = True"
| "truthy (JObject ms) = True"

definition nullish :: "jsval \<Rightarrow> bool" where
  "nullish v \<longleftrightarrow> v = JUndefined \<or> v = JNull"

text \<open>
  \<^verbatim>\<open>v.name\<close> for a name that no built-in prototype defines and that is not an array
  index, as are \<^verbatim>\<open>choices\<close>, \<^verbatim>\<open>delta\<close>, \<^verbatim>\<open>content\<close>, \<^verbatim>\<open>message\<close> and
  \<^verbatim>\<open>response\<close>: a TypeError on \<^verbatim>\<open>null\<close> and \<^verbatim>\<open>undefined\<close>, the member of an
  object (the last one of that name in the text), \<^verbatim>\<open>undefined\<close> otherwise.
\<close>

definition own_property :: "(jstring \<times> jsval) list \<Rightarrow> jstring \<Rightarrow> jsval" where
  "own_property ms name = (case map_of (rev ms) name of None \<Rightarrow> JUndefined | Some v \<Rightarrow> v)"

fun member :: "jstring \<Rightarrow> jsval \<Rightarrow> js_error + jsval" where
  "member name JUndefined = Inl TypeError"
| "member name JNull = Inl TypeError"
| "member name (JObject ms) = Inr (own_property ms name)"
| "member name v = Inr JUndefined"

text \<open>\<^verbatim>\<open>v[0]\<close>: the first element of an array, the first code unit of a string.\<close>

fun element0 :: "jsval \<Rightarrow> js_error + jsval" where
  "element0 JUndefined = Inl TypeError"
| "element0 JNull = Inl TypeError"
| "element0 (JObject ms) = Inr (own_property ms (js ''0''))"
| "element0 (JArray []) = Inr JUndefined"
| "element0 (JArray (x # xs)) = Inr x"
| "element0 (JString []) = Inr JUndefined"
| "element0 (JString (c # cs)) = Inr (JString [c])"
| "element0 v = Inr JUndefined"

text \<open>Optional chaining \<^verbatim>\<open>v?.\<close>: \<^verbatim>\<open>undefined\<close> when \<open>v\<close> is nullish.\<close>

definition optional :: "(jsval \<Rightarrow> js_error + jsval) \<Rightarrow> jsval \<Rightarrow> js_error + jsval" where
  "optional access v = (if nullish v then Inr JUndefined else access v)"

text \<open>Sequencing of steps that may throw.\<close>

definition and_then :: "'e + 'a \<Rightarrow> ('a \<Rightarrow> 'e + 'b) \<Rightarrow> 'e + 'b" where
  "and_then r k = (case r of Inl e \<Rightarrow> Inl e | Inr v \<Rightarrow> k v)"

section \<open>createParser\<close>

text \<open>
  What a call of \<^verbatim>\<open>parse\<close> does to the outside: \<^verbatim>\<open>controller.enqueue\<close> of the
  encoded content, and the two \<^verbatim>\<open>console.error\<close> lines of the catch block. An
  \<open>Enqueue\<close> carries the content that \<^verbatim>\<open>new TextEncoder().encode\<close> has encoded:
  the bytes that reach the stream are the UTF-8 encoding of a string, and of the string
  conversion of any other value. The controller is taken to accept them.
\<close>

datatype event =
    Enqueue jsval
  | ErrorParsingSSEMessage jstring
  | ParseError js_error

text \<open>
  Line 50:
  \<^verbatim>\<open>data.choices?.[0]?.delta?.content || data.message?.content || data.response || ""\<close>
\<close>

definition content_of :: "jsval \<Rightarrow> js_error + jsval" where
  "content_of data =
     and_then (member (js ''choices'') data) (\<lambda>choices.
     and_then (optional element0 choices) (\<lambda>choice.
     and_then (optional (member (js ''delta'')) choice) (\<lambda>delta.
     and_then (optional (member (js ''content'')) delta) (\<lambda>a.
       if truthy a then Inr a
       else
         and_then (member (js ''message'') data) (\<lambda>message.
         and_then (optional (member (js ''content'')) message) (\<lambda>b.
           if truthy b then Inr b
           else
             and_then (member (js ''response'') data) (\<lambda>response.
               if truthy response then Inr response else Inr (JString []))))))))"

text \<open>
  \<^verbatim>\<open>encode(content)\<close> first converts its argument to a string, and that conversion
  can throw. A string, a number and a boolean always convert. An object converts through
  its \<^verbatim>\<open>toString\<close>: the one of \<^verbatim>\<open>Object.prototype\<close> answers \<^verbatim>\<open>[object Object]\<close>,
  but an own member of that name, which in a parsed value is never a function, hides it,
  \<^verbatim>\<open>valueOf\<close> gives no primitive either, and the conversion throws a TypeError. An
  array converts through \<^verbatim>\<open>join\<close>, which converts every element but \<^verbatim>\<open>null\<close>.
\<close>

fun stringable :: "jsval \<Rightarrow> bool" where
  "stringable (JObject ms) = (js ''toString'' \<notin> set (map fst ms))"
| "stringable (JArray xs) = list_all stringable xs"
| "stringable v = True"

text \<open>Line 52, \<^verbatim>\<open>new TextEncoder().encode(content)\<close>: what is enqueued, or the TypeError.\<close>

definition encode :: "jsval \<Rightarrow> js_error + jsval" where
  "encode content = (if stringable content then Inr content else Inl TypeError)"

text \<open>Lines 48 to 53, the body of the \<^verbatim>\<open>try\<close>.\<close>

definition try_block :: "jstring \<Rightarrow> js_error + event list" where
  "try_block trimmedLine =
     and_then (JSON_parse (slice trimmedLine 6)) (\<lambda>data.
     and_then (content_of data) (\<lambda>content.
       if truthy content then
         and_then (encode content) (\<lambda>encoded. Inr [Enqueue encoded])
       else Inr []))"

text \<open>Lines 47 to 57: the \<^verbatim>\<open>try\<close> with its \<^verbatim>\<open>catch\<close>.\<close>

definition try_catch :: "jstring \<Rightarrow> event list" where
  "try_catch trimmedLine =
     (case try_block trimmedLine of
        Inr events \<Rightarrow> events
      | Inl error \<Rightarrow> [ErrorParsingSSEMessage trimmedLine, ParseError error])"

text \<open>
  Lines 41 to 59, the loop over the complete lines. \<^verbatim>\<open>continue\<close> goes on with the
  rest, \<^verbatim>\<open>return\<close> leaves the call.
\<close>

fun for_lines :: "jstring list \<Rightarrow> event list" where
  "for_lines [] = []"
| "for_lines (line # lines) =
     (let trimmedLine = trim line
      in if trimmedLine = [] then for_lines lines
         else if trimmedLine = js ''data: [DONE]'' then []
         else if startsWith trimmedLine (js ''data: '') then
           try_catch trimmedLine @ for_lines lines
         else for_lines lines)"

text \<open>
  The closure returned by \<^verbatim>\<open>createParser\<close>: its captured decoder and its
  \<^verbatim>\<open>buffer\<close> variable.
\<close>

record parser =
  textDecoder :: decoder
  buffer :: jstring

definition createParser :: "decoder \<Rightarrow> parser" where
  "createParser d = \<lparr>textDecoder = d, buffer = []\<rparr>"

text \<open>
  Lines 34 to 60, one call \<^verbatim>\<open>parse(chunk)\<close>: the closure afterwards and the events of
  the call. \<^verbatim>\<open>lines.pop() || ""\<close> is the last segment, which \<^verbatim>\<open>split\<close> always has.
\<close>

definition parse :: "parser \<Rightarrow> byte list \<Rightarrow> parser \<times> event list" where
  "parse p chunk =
     (let (decoded, d) = decode (textDecoder p) chunk;
          lines = split_newline (buffer p @ decoded)
      in (\<lparr>textDecoder = d, buffer = last lines\<rparr>, for_lines (butlast lines)))"

text \<open>
  The TransformStream of \<^verbatim>\<open>POST\<close> calls the parser once for every chunk of the
  upstream body, in order.
\<close>

fun transform :: "parser \<Rightarrow> byte list list \<Rightarrow> parser \<times> event list" where
  "transform p [] = (p, [])"
| "transform p (chunk # chunks) =
     (let (p1, events1) = parse p chunk;
          (p2, events2) = transform p1 chunks
      in (p2, events1 @ events2))"

text \<open>The content deltas among the events, in order.\<close>

fun deltas :: "event list \<Rightarrow> jsval list" where
  "deltas [] = []"
| "deltas (Enqueue content # events) = content # deltas events"
| "deltas (event # events) = deltas events"

text \<open>The stream of one request: a fresh parser with a fresh decoder, fed the chunks.\<close>

definition stream_events :: "byte list list \<Rightarrow> event list" where
  "stream_events chunks = snd (transform (createParser new_TextDecoder) chunks)"

section \<open>The POST handler\<close>

text \<open>
  A thrown error object, with the two properties the \<^verbatim>\<open>catch\<close> of \<^verbatim>\<open>POST\<close> reads.
  \<^verbatim>\<open>new Error(m)\<close> has the name \<^verbatim>\<open>Error\<close>.
\<close>

record thrown =
  error_name :: jstring
  error_message :: jstring

definition new_Error :: "jstring \<Rightarrow> thrown" where
  "new_Error m = \<lparr>error_name = js ''Error'', error_message = m\<rparr>"

text \<open>\<^verbatim>\<open>Error.prototype.toString\<close>.\<close>

definition error_toString :: "thrown \<Rightarrow> jstring" where
  "error_toString e =
     (if error_name e = [] then error_message e
      else if error_message e = [] then error_name e
      else error_name e @ js '': '' @ error_message e)"

text \<open>
  What the handler sees of a \<^verbatim>\<open>fetch\<close> response: \<^verbatim>\<open>response.ok\<close>, the outcomes of
  \<^verbatim>\<open>await response.text()\<close> and \<^verbatim>\<open>await response.json()\<close>, and the chunks of
  \<^verbatim>\<open>response.body\<close>, which is \<^verbatim>\<open>null\<close> for a response without a body.
\<close>

record upstream =
  ok :: bool
  body_text :: "thrown + jstring"
  body_json :: "thrown + jsval"
  body :: "byte list list option"

text \<open>The fields the handler takes from the request body.\<close>

record chat_request =
  messages :: "jsval list"
  model :: jsval
  temperature :: jsval
  contextWindow :: jsval
  systemPrompt :: jsval
  stream :: jsval

datatype endpoint = OllamaChatCompletions | CloudflareChatCompletions

text \<open>
  Everything outside the handler: the environment variable and the configuration flag,
  the outcome of \<^verbatim>\<open>await req.json()\<close>, the two services behind \<^verbatim>\<open>fetch\<close>, the
  engine's message for reading a property of \<^verbatim>\<open>undefined\<close>, and its conversion of a
  value inside a template literal.
\<close>

record environment =
  NEXT_PUBLIC_DEFAULT_PROVIDER :: "jstring option"
  CONTEXT_INJECTION :: bool
  req_json :: "thrown + chat_request"
  search_fetch :: "jsval \<Rightarrow> thrown + upstream"
  chat_fetch :: "endpoint \<Rightarrow> jsval \<Rightarrow> thrown + upstream"
  type_error_message :: jstring
  template_text :: "jsval \<Rightarrow> jstring"

datatype http_response =
    NextResponse_json jsval nat
  | StreamingTextResponse "event list"

definition new_TypeError :: "environment \<Rightarrow> thrown" where
  "new_TypeError env = \<lparr>error_name = js ''TypeError'', error_message = type_error_message env\<rparr>"

text \<open>Lines 119 to 137. Its own \<^verbatim>\<open>catch\<close> turns every failure into the empty string.\<close>

definition performSemanticSearch :: "environment \<Rightarrow> jsval \<Rightarrow> jsval" where
  "performSemanticSearch env query =
     (case search_fetch env query of
        Inl error \<Rightarrow> JString []
      | Inr response \<Rightarrow>
          if \<not> ok response then JString []
          else
            (case body_json response of
               Inl error \<Rightarrow> JString []
             | Inr data \<Rightarrow>
                 (case member (js ''context'') data of
                    Inl error \<Rightarrow> JString []
                  | Inr context \<Rightarrow> if truthy context then context else JString [])))"

definition system_message :: "jsval \<Rightarrow> jsval" where
  "system_message content = JObject [(js ''role'', JString (js ''system'')), (js ''content'', content)]"

text \<open>Lines 145 to 149: the context for the last message, when context injection is on.\<close>

definition additionalContext :: "environment \<Rightarrow> jsval list \<Rightarrow> thrown + jsval" where
  "additionalContext env msgs =
     (if CONTEXT_INJECTION env then
        (if msgs = [] then Inl (new_TypeError env)
         else
           (case member (js ''content'') (last msgs) of
              Inl error \<Rightarrow> Inl (new_TypeError env)
            | Inr lastUserMessage \<Rightarrow> Inr (performSemanticSearch env lastUserMessage)))
      else Inr (JString []))"

text \<open>Lines 152 to 163.\<close>

definition finalMessages :: "environment \<Rightarrow> chat_request \<Rightarrow> jsval \<Rightarrow> jsval list" where
  "finalMessages env request context =
     (let contextEnhancedMessages =
            (if truthy context then
               butlast (messages request)
               @ [system_message
                    (JString (js ''Additional context: '' @ template_text env context)),
                  last (messages request)]
             else messages request)
      in if truthy (systemPrompt request) then
           system_message (systemPrompt request) # contextEnhancedMessages
         else contextEnhancedMessages)"

definition request_body :: "chat_request \<Rightarrow> jsval list \<Rightarrow> jsval" where
  "request_body request msgs =
     JObject [(js ''model'', model request), (js ''messages'', JArray msgs),
              (js ''stream'', stream request), (js ''temperature'', temperature request),
              (js ''max_tokens'', contextWindow request)]"

text \<open>
  Lines 178 to 199 and 220 to 241, what either branch does with the upstream response:
  the check of \<^verbatim>\<open>response.ok\<close>, the streaming reply through a TransformStream around
  \<^verbatim>\<open>createParser(new TextDecoder(), controller)\<close>, and the regular reply.
\<close>

definition reply_content :: "endpoint \<Rightarrow> jsval \<Rightarrow> js_error + jsval" where
  "reply_content target data =
     (case target of
        OllamaChatCompletions \<Rightarrow>
          and_then (member (js ''message'') data) (member (js ''content''))
      | CloudflareChatCompletions \<Rightarrow>
          and_then (member (js ''choices'') data) (\<lambda>choices.
          and_then (element0 choices) (\<lambda>choice.
          and_then (member (js ''message'') choice) (member (js ''content'')))))"

definition api_name :: "endpoint \<Rightarrow> jstring" where
  "api_name target =
     (case target of OllamaChatCompletions \<Rightarrow> js ''Ollama''
                   | CloudflareChatCompletions \<Rightarrow> js ''Cloudflare'')"

definition respond :: "environment \<Rightarrow> endpoint \<Rightarrow> chat_request \<Rightarrow> upstream \<Rightarrow> thrown + http_response" where
  "respond env target request response =
     (if \<not> ok response then
        (case body_text response of
           Inl error \<Rightarrow> Inl error
         | Inr errorData \<Rightarrow> Inl (new_Error (api_name target @ js '' API error: '' @ errorData)))
      else if truthy (stream request) then
        (case body response of
           None \<Rightarrow> Inl (new_TypeError env)
         | Some chunks \<Rightarrow> Inr (StreamingTextResponse (stream_events chunks)))
      else
        (case body_json response of
           Inl error \<Rightarrow> Inl error
         | Inr data \<Rightarrow>
             (case reply_content target data of
                Inl error \<Rightarrow> Inl (new_TypeError env)
              | Inr content \<Rightarrow>
                  Inr (NextResponse_json (JObject [(js ''content'', content)]) 200))))"

text \<open>Line 142: \<^verbatim>\<open>process.env.NEXT_PUBLIC_DEFAULT_PROVIDER || "ollama"\<close>, compared with "ollama".\<close>

definition provider :: "environment \<Rightarrow> jstring" where
  "provider env =
     (case NEXT_PUBLIC_DEFAULT_PROVIDER env of
        None \<Rightarrow> js ''ollama''
      | Some v \<Rightarrow> if v = [] then js ''ollama'' else v)"

definition chat_endpoint :: "environment \<Rightarrow> endpoint" where
  "chat_endpoint env =
     (if provider env = js ''ollama'' then OllamaChatCompletions else CloudflareChatCompletions)"

text \<open>Lines 141 to 242, the body of the \<^verbatim>\<open>try\<close>.\<close>

definition POST_try :: "environment \<Rightarrow> thrown + http_response" where
  "POST_try env =
     and_then (req_json env) (\<lambda>request.
     and_then (additionalContext env (messages request)) (\<lambda>context.
     and_then (chat_fetch env (chat_endpoint env)
                 (request_body request (finalMessages env request context))) (\<lambda>response.
       respond env (chat_endpoint env) request response)))"

text \<open>Lines 243 to 252, the \<^verbatim>\<open>catch\<close>.\<close>

definition POST_catch :: "thrown \<Rightarrow> http_response" where
  "POST_catch error =
     NextResponse_json
       (JObject [(js ''error'',
                  JString (if error_message error \<noteq> [] then error_message error
                           else js ''An unexpected error occurred'')),
                 (js ''details'', JString (error_toString error))])
       500"

definition POST :: "environment \<Rightarrow> http_response" where
  "POST env = (case POST_try env of Inr response \<Rightarrow> response | Inl error \<Rightarrow> POST_catch error)"

section \<open>Notions used in the statements\<close>

text \<open>Lines joined into a text, each ended by a newline.\<close>

definition unlines :: "jstring list \<Rightarrow> jstring" where
  "unlines ls = concat (map (\<lambda>l. l @ [newline]) ls)"

text \<open>A line that the loop takes for the terminal sentinel.\<close>

definition is_sentinel :: "jstring \<Rightarrow> bool" where
  "is_sentinel line \<longleftrightarrow> trim line = js ''data: [DONE]''"

text \<open>The events of a line on its own; a sentinel has none.\<close>

definition line_events :: "jstring \<Rightarrow> event list" where
  "line_events line = for_lines [line]"

text \<open>No line after the first sentinel carries a delta.\<close>

fun quiet_after_sentinel :: "jstring list \<Rightarrow> bool" where
  "quiet_after_sentinel [] = True"
| "quiet_after_sentinel (line # lines) =
     (if is_sentinel line then list_all (\<lambda>l. deltas (line_events l) = []) lines
      else quiet_after_sentinel lines)"

text \<open>
  The SSE line of a payload, and the text of a sequence of data frames closed by the
  sentinel, every frame followed by a blank line.
\<close>

definition data_line :: "jstring \<Rightarrow> jstring" where
  "data_line payload = js ''data: '' @ payload"

definition sse_stream :: "jstring list \<Rightarrow> jstring" where
  "sse_stream payloads =
     concat (map (\<lambda>p. data_line p @ [newline, newline]) payloads)
     @ js ''data: [DONE]'' @ [newline, newline]"

text \<open>A payload that can stand in a data frame: it fits on the line and is not \<^verbatim>\<open>[DONE]\<close>.\<close>

definition data_frame :: "jstring \<Rightarrow> bool" where
  "data_frame payload \<longleftrightarrow> newline \<notin> set payload \<and> \<not> is_sentinel (data_line payload)"

text \<open>A line that is a frame with content \<open>c\<close>: on its own it enqueues \<open>c\<close> and nothing else.\<close>

definition carries :: "jstring \<Rightarrow> jsval \<Rightarrow> bool" where
  "carries line c \<longleftrightarrow> newline \<notin> set line \<and> line_events line = [Enqueue c]"

text \<open>
  The field of a value at a path of property names and first elements, \<^verbatim>\<open>undefined\<close>
  where a step is missing; and the first truthy value of a list.
\<close>

datatype step = Key jstring | First

fun access :: "step \<Rightarrow> jsval \<Rightarrow> js_error + jsval" where
  "access (Key name) v = member name v"
| "access First v = element0 v"

fun field :: "jsval \<Rightarrow> step list \<Rightarrow> jsval" where
  "field v [] = v"
| "field v (s # path) =
     (case access s v of Inl e \<Rightarrow> JUndefined | Inr v' \<Rightarrow> field v' path)"

definition candidates :: "jsval \<Rightarrow> jsval list" where
  "candidates data =
     [field data [Key (js ''choices''), First, Key (js ''delta''), Key (js ''content'')],
      field data [Key (js ''message''), Key (js ''content'')],
      field data [Key (js ''response'')]]"

definition first_match :: "jsval \<Rightarrow> jsval list" where
  "first_match data = (case find truthy (candidates data) of None \<Rightarrow> [] | Some c \<Rightarrow> [c])"


text \<open>The lines of \<open>sse_stream\<close>: every frame and the sentinel, each followed by a blank line.\<close>

fun frame_lines :: "jstring list \<Rightarrow> jstring list" where
  "frame_lines [] = [js ''data: [DONE]'', []]"
| "frame_lines (p # ps) = data_line p # [] # frame_lines ps"

text \<open>The value the expression of line 50 has when nothing throws.\<close>

definition extracted :: "jsval \<Rightarrow> jsval" where
  "extracted data = (case find truthy (candidates data) of None \<Rightarrow> JString [] | Some c \<Rightarrow> c)"

text \<open>
  An environment in which the local server answers the chat request with a non-success
  status and the body \<^verbatim>\<open>model not found\<close>.
\<close>

definition rejecting_environment :: environment where
  "rejecting_environment =
     \<lparr>NEXT_PUBLIC_DEFAULT_PROVIDER = None,
      CONTEXT_INJECTION = False,
      req_json = Inr \<lparr>messages = [JObject [(js ''role'', JString (js ''user'')),
                                             (js ''content'', JString (js ''hello''))]],
                      model = JString (js ''mistral:latest''),
                      temperature = JNumber 2 (- 1),
                      contextWindow = JNumber 4096 0,
                      systemPrompt = JString [],
                      stream = JBoolean True\<rparr>,
      search_fetch = (\<lambda>query. Inl (new_Error [])),
      chat_fetch = (\<lambda>target request.
         Inr \<lparr>ok = False, body_text = Inr (js ''model not found''),
              body_json = Inl (new_Error []), body = Some []\<rparr>),
      type_error_message = [],
      template_text = (\<lambda>v. [])\<rparr>"

section \<open>The decoder and the line buffer\<close>

lemma decode_append:
  "decode d (a @ b) =
     (let (t1, d1) = decode d a; (t2, d2) = decode d1 b in (t1 @ t2, d2))"
  by (induction a arbitrary: d) (auto split: prod.splits)

lemma decode_concat_fst:
  "fst (decode d (a @ b)) = fst (decode d a) @ fst (decode (snd (decode d a)) b)"
  by (simp add: decode_append split: prod.splits)

lemma decode_concat_snd:
  "snd (decode d (a @ b)) = snd (decode (snd (decode d a)) b)"
  by (simp add: decode_append split: prod.splits)

text \<open>On bytes below \<^verbatim>\<open>0x80\<close> the decoder is the identity.\<close>

lemma unat_byte: "unat (b :: byte) < 256"
  using unsigned_less [of b, where 'a = nat] by simp

lemma unat_up: "unat (ucast (b :: byte) :: 32 word) = unat b"
  using unat_byte [of b] by (simp add: unsigned_ucast_eq take_bit_nat_eq_self)

lemma ascii_up: "(ucast (b :: byte) :: 32 word) < 0x10000"
  using unat_byte [of b] by (simp add: word_less_nat_alt unat_up)

lemma ascii_not_bom: "(ucast (b :: byte) :: 32 word) \<noteq> 0xFEFF"
  using unat_up [of b] unat_byte [of b] by auto

lemma ucast_twice: "(ucast (ucast (b :: byte) :: 32 word) :: 16 word) = ucast b"
  by (rule ucast_up_ucast) (simp add: is_up)

lemma serialize_ascii:
  "fst (serialize d [ucast (b :: byte)]) = [ucast b]"
  "bom_seen (snd (serialize d [ucast (b :: byte)]))"
  "bytes_needed (snd (serialize d [ucast (b :: byte)])) = bytes_needed d"
  by (simp_all add: utf16_def ascii_up ascii_not_bom ucast_twice)

lemma decode_ascii:
  "\<forall>b\<in>set bs. b \<le> 0x7F \<Longrightarrow> bytes_needed d = 0 \<Longrightarrow> fst (decode d bs) = map ucast bs"
proof (induction bs arbitrary: d)
  case Nil
  show ?case by simp
next
  case (Cons b bs)
  then have h: "utf8_handler d b = (d, [ucast b])"
    by (simp add: utf8_handler_def lead_byte_def)
  let ?d = "snd (serialize d [ucast b])"
  have "fst (decode ?d bs) = map ucast bs"
    using Cons.prems by (intro Cons.IH) (simp_all add: serialize_ascii del: serialize.simps)
  moreover obtain out d' where s: "serialize d [ucast b] = (out, d')"
    by (cases "serialize d [ucast b :: 32 word]")
  moreover from s have "out = [ucast b]"
    using serialize_ascii(1) [of d b] by simp
  ultimately show ?case
    by (auto simp: h split: prod.splits simp del: serialize.simps)
qed

lemma of_char_byte: "(ucast (of_char c :: byte) :: code_unit) = of_char c"
proof -
  have "unat (of_char c :: byte) = of_char c"
    using unat_of_nat [of "of_char c", where 'a = 8] by (simp add: of_nat_of_char)
  then have "(ucast (of_char c :: byte) :: code_unit) = of_nat (of_char c)"
    by (metis of_nat_unat)
  then show ?thesis
    by (simp add: of_nat_of_char)
qed

lemma wire_ascii:
  "\<forall>b\<in>set (wire s). b \<le> 0x7F \<Longrightarrow> fst (decode new_TextDecoder (wire s)) = js s"
  using decode_ascii [of "wire s" new_TextDecoder]
  by (simp add: new_TextDecoder_def wire_def js_def of_char_byte)

lemma split_newline_not_Nil [simp]: "split_newline s \<noteq> []"
  by (cases s) (simp_all add: Let_def)

lemma split_newline_line:
  "newline \<notin> set l \<Longrightarrow> split_newline (l @ newline # s) = l # split_newline s"
  by (induction l) (auto simp: Let_def)

lemma split_newline_partial:
  "newline \<notin> set l \<Longrightarrow> split_newline l = [l]"
  by (induction l) (auto simp: Let_def)

lemma unlines_simps [simp]:
  "unlines [] = []" "unlines (l # ls) = l @ newline # unlines ls"
  "unlines (xs @ ys) = unlines xs @ unlines ys"
  by (simp_all add: unlines_def)

lemma split_newline_unlines:
  "newline \<notin> set (concat ls) \<Longrightarrow> split_newline (unlines ls @ s) = ls @ split_newline s"
  by (induction ls) (simp_all add: split_newline_line)

lemma split_newline_free: "newline \<notin> set (concat (split_newline s))"
  by (induction s) (auto simp: Let_def dest: hd_in_set list.set_sel(2)[OF split_newline_not_Nil] )

lemma split_newline_join:
  "unlines (butlast (split_newline s)) @ last (split_newline s) = s"
proof (induction s)
  case Nil
  show ?case by simp
next
  case (Cons c s)
  obtain x xs where sp: "split_newline s = x # xs"
    by (cases "split_newline s") simp_all
  show ?case using Cons sp by (cases xs) (auto simp: Let_def)
qed

lemma split_newline_append:
  "split_newline (a @ b) =
     butlast (split_newline a) @ split_newline (last (split_newline a) @ b)"
proof -
  let ?ls = "butlast (split_newline a)" and ?r = "last (split_newline a)"
  have free: "newline \<notin> set (concat ?ls)"
    using split_newline_free [of a] by (auto dest: in_set_butlastD)
  have "split_newline (unlines ?ls @ (?r @ b)) = ?ls @ split_newline (?r @ b)"
    using free by (rule split_newline_unlines)
  then show ?thesis using split_newline_join [of a]
    by (metis append.assoc)
qed


lemma deltas_append [simp]: "deltas (xs @ ys) = deltas xs @ deltas ys"
  by (induction xs rule: deltas.induct) simp_all

lemma line_events_sentinel: "is_sentinel l \<Longrightarrow> line_events l = []"
  by (simp add: line_events_def is_sentinel_def Let_def js_def)

lemma for_lines_Cons:
  "for_lines (l # ls) = (if is_sentinel l then [] else line_events l @ for_lines ls)"
  by (simp add: line_events_def is_sentinel_def Let_def js_def)

lemma for_lines_no_sentinel:
  "\<not> list_ex is_sentinel ls \<Longrightarrow> for_lines ls = concat (map line_events ls)"
  by (induction ls) (simp_all add: for_lines_Cons del: for_lines.simps(2))

lemma for_lines_append:
  "for_lines (a @ b) = (if list_ex is_sentinel a then for_lines a else for_lines a @ for_lines b)"
  by (induction a) (simp_all add: for_lines_Cons del: for_lines.simps(2))

lemma silent_concat:
  "list_all (\<lambda>l. deltas (line_events l) = []) ls \<Longrightarrow>
   concat (map (\<lambda>l. deltas (line_events l)) ls) = []"
  by (induction ls) simp_all

lemma for_lines_quiet:
  "quiet_after_sentinel ls \<Longrightarrow>
   deltas (for_lines ls) = concat (map (\<lambda>l. deltas (line_events l)) ls)"
  by (induction ls)
     (simp_all add: for_lines_Cons line_events_sentinel silent_concat del: for_lines.simps(2))

lemma silent_quiet:
  "list_all (\<lambda>l. deltas (line_events l) = []) ls \<Longrightarrow> quiet_after_sentinel ls"
  by (induction ls) simp_all

lemma quiet_appendD1: "quiet_after_sentinel (a @ b) \<Longrightarrow> quiet_after_sentinel a"
  by (induction a) (simp_all split: if_splits)

lemma quiet_appendD2: "quiet_after_sentinel (a @ b) \<Longrightarrow> quiet_after_sentinel b"
  by (induction a) (simp_all add: silent_quiet split: if_splits)

lemma groups_quiet:
  "quiet_after_sentinel (concat groups) \<Longrightarrow>
   deltas (concat (map for_lines groups)) =
   concat (map (\<lambda>l. deltas (line_events l)) (concat groups))"
proof (induction groups)
  case Nil
  show ?case by simp
next
  case (Cons g groups)
  from Cons.prems have "quiet_after_sentinel g" "quiet_after_sentinel (concat groups)"
    by (auto dest: quiet_appendD1 quiet_appendD2)
  then show ?case using Cons.IH by (simp add: for_lines_quiet)
qed

lemma groups_no_sentinel:
  "\<not> list_ex is_sentinel (concat groups) \<Longrightarrow>
   concat (map for_lines groups) = concat (map line_events (concat groups))"
  by (induction groups) (auto simp: for_lines_no_sentinel list_ex_iff)

text \<open>Every call handles a run of consecutive complete lines of the text.\<close>

lemma last_split_newline_free: "newline \<notin> set (last (split_newline s))"
proof -
  have "last (split_newline s) \<in> set (split_newline s)"
    by simp
  then show ?thesis
    using split_newline_free [of s] by auto
qed

lemma transform_Cons:
  "transform p (c # cs) =
     (fst (transform (fst (parse p c)) cs),
      snd (parse p c) @ snd (transform (fst (parse p c)) cs))"
  by (simp split: prod.splits)

lemma transform_groups:
  "newline \<notin> set (buffer p) \<Longrightarrow> \<exists>groups. length groups = length chunks \<and>
     concat groups =
       butlast (split_newline (buffer p @ fst (decode (textDecoder p) (concat chunks)))) \<and>
     snd (transform p chunks) = concat (map for_lines groups) \<and>
     buffer (fst (transform p chunks)) =
       last (split_newline (buffer p @ fst (decode (textDecoder p) (concat chunks)))) \<and>
     textDecoder (fst (transform p chunks)) = snd (decode (textDecoder p) (concat chunks))"
proof (induction chunks arbitrary: p)
  case Nil
  then have "split_newline (buffer p) = [buffer p]"
    by (simp add: split_newline_partial)
  then show ?case
    by (intro exI [of _ "[]"]) simp
next
  case (Cons c chunks)
  obtain t d where dec: "decode (textDecoder p) c = (t, d)"
    by (cases "decode (textDecoder p) c")
  let ?segs = "split_newline (buffer p @ t)"
  let ?p1 = "\<lparr>textDecoder = d, buffer = last ?segs\<rparr>"
  have p1: "parse p c = (?p1, for_lines (butlast ?segs))"
    by (simp add: parse_def dec Let_def)
  have "newline \<notin> set (buffer ?p1)"
    by (simp add: last_split_newline_free)
  from Cons.IH [OF this] obtain groups where g:
    "length groups = length chunks"
    "concat groups = butlast (split_newline (last ?segs @ fst (decode d (concat chunks))))"
    "snd (transform ?p1 chunks) = concat (map for_lines groups)"
    "buffer (fst (transform ?p1 chunks)) =
       last (split_newline (last ?segs @ fst (decode d (concat chunks))))"
    "textDecoder (fst (transform ?p1 chunks)) = snd (decode d (concat chunks))"
    by auto
  have whole: "fst (decode (textDecoder p) (concat (c # chunks))) = t @ fst (decode d (concat chunks))"
    by (simp add: decode_concat_fst dec)
  have sp: "split_newline (buffer p @ t @ fst (decode d (concat chunks))) =
      butlast ?segs @ split_newline (last ?segs @ fst (decode d (concat chunks)))"
    using split_newline_append [of "buffer p @ t"] by simp
  show ?case
    apply (rule exI [of _ "butlast ?segs # groups"])
    using g p1 sp whole
    by (simp add: transform_Cons decode_concat_snd dec butlast_append del: transform.simps)
qed

lemma parse_eq:
  "parse p chunk =
     (\<lparr>textDecoder = snd (decode (textDecoder p) chunk),
        buffer = last (split_newline (buffer p @ fst (decode (textDecoder p) chunk)))\<rparr>,
      for_lines (butlast (split_newline (buffer p @ fst (decode (textDecoder p) chunk)))))"
  by (simp add: parse_def Let_def split: prod.splits)

lemma transform_buffer_free:
  "newline \<notin> set (buffer p) \<Longrightarrow> newline \<notin> set (buffer (fst (transform p chunks)))"
  by (induction chunks arbitrary: p)
     (simp_all add: transform_Cons parse_eq last_split_newline_free del: transform.simps(2))

section \<open>The line buffer\<close>

text \<open>
  Claim C6 (line-buffer invariant). On every call of \<^verbatim>\<open>parse\<close> the decoded text is
  appended to the carried buffer and split on newline: the complete lines handed to the
  loop in this call, each ended by a newline, followed by the new buffer, are exactly the
  old buffer followed by the decoded text, so nothing is lost and nothing doubled. All
  complete lines go to the loop of lines 41 to 59 within the call, which takes them in
  order up to a sentinel (claim C3); none waits for a later call. The last segment is
  kept as the new buffer and is not handed to the loop. After every
  call, and after any sequence of calls on a parser from \<^verbatim>\<open>createParser\<close>, the buffer
  holds no newline. A line that arrives in two calls, \<open>a\<close> and then \<open>b\<close> with its
  newline, is handed to the loop in the second call as the one line \<open>buffer @ a @ b\<close>.
\<close>

theorem line_buffer_invariant:
  "(\<exists>lines. unlines lines @ buffer (fst (parse p chunk))
              = buffer p @ fst (decode (textDecoder p) chunk)
            \<and> newline \<notin> set (concat lines)
            \<and> snd (parse p chunk) = for_lines lines)
   \<and> newline \<notin> set (buffer (fst (parse p chunk)))
   \<and> newline \<notin> set (buffer (fst (transform (createParser d) chunks)))
   \<and> (newline \<notin> set (buffer p @ a) \<and> newline \<notin> set b
        \<and> fst (decode (textDecoder p) chunk) = a
        \<and> fst (decode (textDecoder (fst (parse p chunk))) chunk') = b @ [newline]
      \<longrightarrow> snd (parse p chunk) = []
          \<and> buffer (fst (parse p chunk)) = buffer p @ a
          \<and> snd (parse (fst (parse p chunk)) chunk') = for_lines [buffer p @ a @ b]
          \<and> buffer (fst (parse (fst (parse p chunk)) chunk')) = [])"
proof (intro conjI impI)
  let ?segs = "split_newline (buffer p @ fst (decode (textDecoder p) chunk))"
  have free: "newline \<notin> set (concat (butlast ?segs))"
    using split_newline_free [of "buffer p @ fst (decode (textDecoder p) chunk)"]
    by (auto dest: in_set_butlastD)
  show "\<exists>lines. unlines lines @ buffer (fst (parse p chunk))
              = buffer p @ fst (decode (textDecoder p) chunk)
            \<and> newline \<notin> set (concat lines)
            \<and> snd (parse p chunk) = for_lines lines"
    using free by (intro exI [of _ "butlast ?segs"]) (simp add: parse_eq split_newline_join)
  show "newline \<notin> set (buffer (fst (parse p chunk)))"
    by (simp add: parse_eq last_split_newline_free)
  show "newline \<notin> set (buffer (fst (transform (createParser d) chunks)))"
    by (rule transform_buffer_free) (simp add: createParser_def)
next
  assume h: "newline \<notin> set (buffer p @ a) \<and> newline \<notin> set b
        \<and> fst (decode (textDecoder p) chunk) = a
        \<and> fst (decode (textDecoder (fst (parse p chunk))) chunk') = b @ [newline]"
  then have first: "split_newline (buffer p @ fst (decode (textDecoder p) chunk)) = [buffer p @ a]"
    by (simp add: split_newline_partial)
  from h have "newline \<notin> set (buffer p @ a @ b)"
    by simp
  then have second: "split_newline ((buffer p @ a @ b) @ newline # []) = [buffer p @ a @ b, []]"
    using split_newline_line [of "buffer p @ a @ b" "[]"] by simp
  show "snd (parse p chunk) = []"
    by (simp add: parse_eq first)
  show buf1: "buffer (fst (parse p chunk)) = buffer p @ a"
    by (simp add: parse_eq first)
  from h have "split_newline (buffer (fst (parse p chunk))
        @ fst (decode (textDecoder (fst (parse p chunk))) chunk')) = [buffer p @ a @ b, []]"
    using second by (simp add: buf1)
  then show "snd (parse (fst (parse p chunk)) chunk') = for_lines [buffer p @ a @ b]"
    and "buffer (fst (parse (fst (parse p chunk)) chunk')) = []"
    by (simp_all add: parse_eq [of "fst (parse p chunk)"] del: for_lines.simps)
qed

theorem line_buffer_invariant_witness:
  \<open>newline \<notin> set (buffer (createParser new_TextDecoder) @ js ''data: {"respon'')
   \<and> newline \<notin> set (js ''se":"Hi"}'')
   \<and> snd (parse (createParser new_TextDecoder) (wire ''data: {"respon'')) = []
   \<and> buffer (fst (parse (createParser new_TextDecoder) (wire ''data: {"respon'')))
       = js ''data: {"respon''
   \<and> snd (parse (fst (parse (createParser new_TextDecoder) (wire ''data: {"respon'')))
              (wire ''se":"Hi"}\<newline>''))
       = [Enqueue (JString (js ''Hi''))]
   \<and> buffer (fst (parse (fst (parse (createParser new_TextDecoder) (wire ''data: {"respon'')))
              (wire ''se":"Hi"}\<newline>''))) = []\<close>
proof -
  let ?p = "createParser new_TextDecoder"
  have h1: \<open>newline \<notin> set (buffer ?p @ js ''data: {"respon'')\<close>
    by code_simp
  have h2: \<open>newline \<notin> set (js ''se":"Hi"}'')\<close>
    by code_simp
  have h3: \<open>fst (decode (textDecoder ?p) (wire ''data: {"respon'')) = js ''data: {"respon''\<close>
    by code_simp
  have h4: \<open>fst (decode (textDecoder (fst (parse ?p (wire ''data: {"respon''))))
                (wire ''se":"Hi"}\<newline>'')) = js ''se":"Hi"}'' @ [newline]\<close>
    by code_simp
  have e: \<open>for_lines [buffer ?p @ js ''data: {"respon'' @ js ''se":"Hi"}'']
            = [Enqueue (JString (js ''Hi''))]\<close>
    by code_simp
  have b: \<open>buffer ?p @ js ''data: {"respon'' = js ''data: {"respon''\<close>
    by code_simp
  show ?thesis
    using line_buffer_invariant [of ?p \<open>wire ''data: {"respon''\<close> new_TextDecoder "[]"
        \<open>js ''data: {"respon''\<close> \<open>js ''se":"Hi"}''\<close> \<open>wire ''se":"Hi"}\<newline>''\<close>]
      h1 h2 h3 h4 e b
    by simp
qed

section \<open>Streams of lines under any fragmentation\<close>

lemma stream_lines:
  assumes "fst (decode new_TextDecoder (concat chunks)) = unlines lines @ partial"
    and "newline \<notin> set (concat lines)" and "newline \<notin> set partial"
  shows "\<exists>groups. concat groups = lines \<and> length groups = length chunks
           \<and> stream_events chunks = concat (map for_lines groups)
           \<and> buffer (fst (transform (createParser new_TextDecoder) chunks)) = partial"
proof -
  let ?p = "createParser new_TextDecoder"
  have sp: "split_newline (buffer ?p @ fst (decode (textDecoder ?p) (concat chunks))) = lines @ [partial]"
    using assms by (simp add: createParser_def split_newline_unlines split_newline_partial)
  have "newline \<notin> set (buffer ?p)"
    by (simp add: createParser_def)
  from transform_groups [OF this, of chunks] show ?thesis
    unfolding sp stream_events_def by auto
qed

lemma stream_events_no_sentinel:
  assumes "fst (decode new_TextDecoder (concat chunks)) = unlines lines @ partial"
    and "newline \<notin> set (concat lines)" and "newline \<notin> set partial"
    and "\<not> list_ex is_sentinel lines"
  shows "stream_events chunks = concat (map line_events lines)"
proof -
  from stream_lines [OF assms(1-3)] obtain groups where
    "concat groups = lines" "stream_events chunks = concat (map for_lines groups)"
    by blast
  then show ?thesis
    using groups_no_sentinel [of groups] assms(4) by simp
qed

lemma sse_stream_lines: "sse_stream ps = unlines (frame_lines ps)"
  by (induction ps) (simp_all add: sse_stream_def)

lemma newline_not_in_literals [simp]:
  "newline \<notin> set (js ''data: [DONE]'')" "newline \<notin> set (js ''data: '')"
  by (simp_all add: js_def newline_def)

lemma frame_lines_free:
  "list_all data_frame ps \<Longrightarrow> newline \<notin> set (concat (frame_lines ps))"
  by (induction ps) (simp_all add: data_frame_def data_line_def)

lemma blank_line [simp]: "line_events [] = []" "\<not> is_sentinel []"
  by (simp_all add: line_events_def is_sentinel_def trim_def js_def)

lemma sentinel_literal [simp]: "is_sentinel (js ''data: [DONE]'')"
  by (simp add: is_sentinel_def trim_def js_def is_white_def)

lemma frame_lines_quiet:
  "list_all data_frame ps \<Longrightarrow> quiet_after_sentinel (frame_lines ps)"
  by (induction ps) (simp_all add: data_frame_def)

lemma frame_lines_deltas:
  "concat (map (\<lambda>l. deltas (line_events l)) (frame_lines ps))
   = concat (map (\<lambda>p. deltas (line_events (data_line p))) ps)"
  by (induction ps) (simp_all add: line_events_sentinel)





section \<open>Chunk boundaries\<close>

text \<open>
  Claim C1 (chunk-boundary invariance). Take any sequence of data frames, each a line
  \<^verbatim>\<open>data: \<close> followed by a payload that fits on the line and is not \<^verbatim>\<open>[DONE]\<close>
  (every JSON text without a raw newline is such a payload, lemma
  \<open>json_payload_data_frame\<close>), closed by the sentinel frame, and any chunks whose
  bytes the decoder reads as the text of these frames (for ASCII these are the code
  units of the text themselves, lemma \<open>wire_ascii\<close>). Feeding the chunks one by one to
  a fresh parser enqueues exactly the deltas that feeding all bytes as one chunk does:
  the deltas of the frames, in order. The chunk boundaries may fall anywhere, also
  inside a line, inside the sentinel or inside a multi-byte character.
\<close>

theorem chunk_boundary_invariance:
  assumes "fst (decode new_TextDecoder (concat chunks)) = sse_stream payloads"
    and "list_all data_frame payloads"
  shows "deltas (stream_events chunks) = deltas (stream_events [concat chunks])
       \<and> deltas (stream_events chunks)
           = concat (map (\<lambda>p. deltas (line_events (data_line p))) payloads)"
proof -
  have whole: "fst (decode new_TextDecoder (concat chunks)) = unlines (frame_lines payloads) @ []"
    using assms(1) by (simp add: sse_stream_lines)
  have free: "newline \<notin> set (concat (frame_lines payloads))"
    using assms(2) by (rule frame_lines_free)
  have quiet: "quiet_after_sentinel (frame_lines payloads)"
    using assms(2) by (rule frame_lines_quiet)
  have any: "deltas (stream_events cs)
      = concat (map (\<lambda>l. deltas (line_events l)) (frame_lines payloads))"
    if "concat cs = concat chunks" for cs
  proof -
    have "fst (decode new_TextDecoder (concat cs)) = unlines (frame_lines payloads) @ []"
      using whole that by simp
    from stream_lines [OF this free] obtain groups where
      "concat groups = frame_lines payloads" "stream_events cs = concat (map for_lines groups)"
      by auto
    then show ?thesis
      using groups_quiet [of groups] quiet by simp
  qed
  have "deltas (stream_events chunks) = deltas (stream_events [concat chunks])"
    using any [of chunks] any [of "[concat chunks]"] by simp
  then show ?thesis
    using any [of chunks] by (simp add: frame_lines_deltas)
qed

theorem chunk_boundary_invariance_witness:
  \<open>deltas (stream_events
      [wire ''data: {"choices":[{"delta":{"content":"H'' @ [0xC3],
       [0xA9] @ wire ''l"}}]}\<newline>\<newline>data: {"choi'',
       wire ''ces":[{"delta":{"content":"lo"}}]}\<newline>\<newline>data: [DO'',
       wire ''NE]\<newline>\<newline>''])
    = deltas (stream_events
      [wire ''data: {"choices":[{"delta":{"content":"H'' @ [0xC3, 0xA9]
       @ wire ''l"}}]}\<newline>\<newline>data: {"choices":[{"delta":{"content":"lo"}}]}\<newline>\<newline>data: [DONE]\<newline>\<newline>''])
   \<and> deltas (stream_events
      [wire ''data: {"choices":[{"delta":{"content":"H'' @ [0xC3],
       [0xA9] @ wire ''l"}}]}\<newline>\<newline>data: {"choi'',
       wire ''ces":[{"delta":{"content":"lo"}}]}\<newline>\<newline>data: [DO'',
       wire ''NE]\<newline>\<newline>''])
    = [JString (js ''H'' @ [0xE9] @ js ''l''), JString (js ''lo'')]\<close>
proof -
  let ?chunks = \<open>[wire ''data: {"choices":[{"delta":{"content":"H'' @ [0xC3],
       [0xA9] @ wire ''l"}}]}\<newline>\<newline>data: {"choi'',
       wire ''ces":[{"delta":{"content":"lo"}}]}\<newline>\<newline>data: [DO'',
       wire ''NE]\<newline>\<newline>'']\<close>
  let ?payloads = \<open>[js ''{"choices":[{"delta":{"content":"H'' @ [0xE9] @ js ''l"}}]}'',
       js ''{"choices":[{"delta":{"content":"lo"}}]}'']\<close>
  have h1: "fst (decode new_TextDecoder (concat ?chunks)) = sse_stream ?payloads"
    by code_simp
  have h2: "list_all data_frame ?payloads"
    by code_simp
  have whole: \<open>concat ?chunks = wire ''data: {"choices":[{"delta":{"content":"H'' @ [0xC3, 0xA9]
       @ wire ''l"}}]}\<newline>\<newline>data: {"choices":[{"delta":{"content":"lo"}}]}\<newline>\<newline>data: [DONE]\<newline>\<newline>''\<close>
    by code_simp
  have out: \<open>concat (map (\<lambda>p. deltas (line_events (data_line p))) ?payloads)
      = [JString (js ''H'' @ [0xE9] @ js ''l''), JString (js ''lo'')]\<close>
    by code_simp
  show ?thesis
    using chunk_boundary_invariance [OF h1 h2] unfolding whole out by blast
qed

lemma stream_buffer:
  assumes "fst (decode new_TextDecoder (concat chunks)) = unlines lines @ partial"
    and "newline \<notin> set (concat lines)" and "newline \<notin> set partial"
  shows "buffer (fst (transform (createParser new_TextDecoder) chunks)) = partial"
  using stream_lines [OF assms] by blast

lemma carries_not_sentinel: "carries line c \<Longrightarrow> \<not> is_sentinel line"
  by (auto simp: carries_def dest: line_events_sentinel)

lemma malformed_line:
  "line_events (js ''data: {not valid json'')
   = [ErrorParsingSSEMessage (js ''data: {not valid json''), ParseError SyntaxError]"
  "\<not> is_sentinel (js ''data: {not valid json'')"
  "newline \<notin> set (js ''data: {not valid json'')"
  by code_simp+

section \<open>Ordering\<close>



section \<open>A malformed frame\<close>

text \<open>
  Claim C4 (malformed-frame tolerance). Between two frames that carry the deltas
  \<open>c1\<close> and \<open>c2\<close>, the line \<^verbatim>\<open>data: {not valid json\<close> adds no delta: under any
  fragmentation the stream with the line enqueues \<open>c1\<close> and \<open>c2\<close>, as the stream
  without it does. The SyntaxError of \<^verbatim>\<open>JSON.parse\<close> does not leave the parser: it
  becomes the two \<^verbatim>\<open>console.error\<close> lines of the catch block. The buffer afterwards
  is the same with and without the line.
\<close>

theorem malformed_frame_tolerance:
  assumes "carries frame1 c1" and "carries frame2 c2"
    and "fst (decode new_TextDecoder (concat with_bad))
           = unlines [frame1, js ''data: {not valid json'', frame2]"
    and "fst (decode new_TextDecoder (concat without)) = unlines [frame1, frame2]"
  shows "stream_events with_bad
           = [Enqueue c1, ErrorParsingSSEMessage (js ''data: {not valid json''),
              ParseError SyntaxError, Enqueue c2]
       \<and> stream_events without = [Enqueue c1, Enqueue c2]
       \<and> deltas (stream_events with_bad) = deltas (stream_events without)
       \<and> buffer (fst (transform (createParser new_TextDecoder) with_bad))
           = buffer (fst (transform (createParser new_TextDecoder) without))"
proof -
  let ?bad = "js ''data: {not valid json''"
  have free: "newline \<notin> set frame1" "newline \<notin> set frame2"
    using assms(1,2) by (simp_all add: carries_def)
  have ev: "line_events frame1 = [Enqueue c1]" "line_events frame2 = [Enqueue c2]"
    using assms(1,2) by (simp_all add: carries_def)
  have ns: "\<not> is_sentinel frame1" "\<not> is_sentinel frame2"
    using assms(1,2) by (simp_all add: carries_not_sentinel)
  have w: "fst (decode new_TextDecoder (concat with_bad)) = unlines [frame1, ?bad, frame2] @ []"
    using assms(3) by simp
  have wo: "fst (decode new_TextDecoder (concat without)) = unlines [frame1, frame2] @ []"
    using assms(4) by simp
  have fw: "newline \<notin> set (concat [frame1, ?bad, frame2])"
    using free malformed_line(3) by simp
  have fwo: "newline \<notin> set (concat [frame1, frame2])"
    using free by simp
  have e1: "stream_events with_bad = concat (map line_events [frame1, ?bad, frame2])"
    using w fw by (rule stream_events_no_sentinel) (simp_all add: ns malformed_line(2))
  have e2: "stream_events without = concat (map line_events [frame1, frame2])"
    using wo fwo by (rule stream_events_no_sentinel) (simp_all add: ns)
  have b1: "buffer (fst (transform (createParser new_TextDecoder) with_bad)) = []"
    using w fw by (rule stream_buffer) simp
  have b2: "buffer (fst (transform (createParser new_TextDecoder) without)) = []"
    using wo fwo by (rule stream_buffer) simp
  show ?thesis
    by (simp add: e1 e2 b1 b2 ev malformed_line(1))
qed

theorem malformed_frame_tolerance_witness:
  \<open>stream_events
      [wire ''data: {"response":"one"}\<newline>data: {not'',
       wire '' valid json\<newline>data: {"response":"two"}\<newline>'']
    = [Enqueue (JString (js ''one'')), ErrorParsingSSEMessage (js ''data: {not valid json''),
       ParseError SyntaxError, Enqueue (JString (js ''two''))]
   \<and> stream_events [wire ''data: {"response":"one"}\<newline>data: {"response":"two"}\<newline>'']
    = [Enqueue (JString (js ''one'')), Enqueue (JString (js ''two''))]\<close>
proof -
  let ?with = \<open>[wire ''data: {"response":"one"}\<newline>data: {not'',
       wire '' valid json\<newline>data: {"response":"two"}\<newline>'']\<close>
  let ?without = \<open>[wire ''data: {"response":"one"}\<newline>data: {"response":"two"}\<newline>'']\<close>
  have h1: \<open>carries (js ''data: {"response":"one"}'') (JString (js ''one''))\<close>
    by code_simp
  have h2: \<open>carries (js ''data: {"response":"two"}'') (JString (js ''two''))\<close>
    by code_simp
  have h3: \<open>fst (decode new_TextDecoder (concat ?with))
      = unlines [js ''data: {"response":"one"}'', js ''data: {not valid json'',
                 js ''data: {"response":"two"}'']\<close>
    by code_simp
  have h4: \<open>fst (decode new_TextDecoder (concat ?without))
      = unlines [js ''data: {"response":"one"}'', js ''data: {"response":"two"}'']\<close>
    by code_simp
  show ?thesis
    using malformed_frame_tolerance [OF h1 h2 h3 h4] by blast
qed

section \<open>The sentinel\<close>

text \<open>
  Claim C3 (terminal sentinel), as the code has it. A line that trims to
  \<^verbatim>\<open>data: [DONE]\<close> enqueues nothing and ends the call of \<^verbatim>\<open>parse\<close> it is read in:
  the events of the call are those of the lines before it, and the complete lines after
  it in the same call are dropped. The unfinished last line stays in the buffer. The
  parser keeps no record of the sentinel: its state after the call is the decoder and
  that buffer, as after any other call, so the text of later chunks is processed.
\<close>

theorem sentinel_ends_the_call:
  assumes "split_newline (buffer p @ fst (decode (textDecoder p) chunk))
             = before @ line # after @ [partial]"
    and "is_sentinel line"
  shows "parse p chunk
           = (\<lparr>textDecoder = snd (decode (textDecoder p) chunk), buffer = partial\<rparr>,
              for_lines before)"
proof -
  have "for_lines (before @ line # after) = for_lines before"
    using assms(2) by (simp add: for_lines_append for_lines_Cons del: for_lines.simps(2))
  moreover have "butlast (before @ line # after @ [partial]) = before @ line # after"
    by (simp add: butlast_append)
  ultimately show ?thesis
    by (simp add: parse_eq assms(1) del: for_lines.simps(2))
qed

theorem sentinel_ends_the_call_witness:
  \<open>parse (createParser new_TextDecoder)
      (wire ''data: {"response":"A"}\<newline>data: [DONE]\<newline>data: {"response":"B"}\<newline>data: {"resp'')
   = (\<lparr>textDecoder = new_TextDecoder\<lparr>bom_seen := True\<rparr>, buffer = js ''data: {"resp''\<rparr>,
      [Enqueue (JString (js ''A''))])\<close>
proof -
  let ?p = "createParser new_TextDecoder"
  let ?chunk = \<open>wire ''data: {"response":"A"}\<newline>data: [DONE]\<newline>data: {"response":"B"}\<newline>data: {"resp''\<close>
  have h1: \<open>split_newline (buffer ?p @ fst (decode (textDecoder ?p) ?chunk))
      = [js ''data: {"response":"A"}''] @ js ''data: [DONE]''
        # [js ''data: {"response":"B"}''] @ [js ''data: {"resp'']\<close>
    by code_simp
  have h2: "is_sentinel (js ''data: [DONE]'')"
    by code_simp
  have d: "snd (decode (textDecoder ?p) ?chunk) = new_TextDecoder\<lparr>bom_seen := True\<rparr>"
    by code_simp
  have e: \<open>for_lines [js ''data: {"response":"A"}''] = [Enqueue (JString (js ''A''))]\<close>
    by code_simp
  show ?thesis
    using sentinel_ends_the_call [OF h1 h2] unfolding d e .
qed

text \<open>
  The claim as stated, that no line of a later chunk produces a delta once the sentinel
  was seen, fails: a data frame in the chunk after the sentinel's is enqueued.
\<close>

theorem sentinel_finality_counterexample:
  \<open>deltas (stream_events [wire ''data: [DONE]\<newline>'', wire ''data: {"response":"Hi"}\<newline>''])
   = [JString (js ''Hi'')]\<close>
  by code_simp

section \<open>The data prefix\<close>

text \<open>
  Claim C10 (strict data-prefix match). A line whose trimmed form does not start with
  the six code units \<^verbatim>\<open>data: \<close> has no events, so no delta, and the loop goes on with
  the next line; only a line that starts with them reaches \<^verbatim>\<open>JSON.parse\<close>. The line
  \<^verbatim>\<open>data:{"response":"Hi"}\<close>, valid SSE without the space, is such a line.
\<close>

theorem strict_data_prefix:
  assumes "\<not> startsWith (trim line) (js ''data: '')"
  shows "line_events line = [] \<and> for_lines (line # lines) = for_lines lines"
proof -
  have "trim line \<noteq> js ''data: [DONE]''"
    using assms by (auto simp: startsWith_def js_def)
  then show ?thesis
    using assms by (simp add: line_events_def Let_def)
qed

theorem strict_data_prefix_witness:
  \<open>line_events (js ''data:{"response":"Hi"}'') = []
   \<and> for_lines [js ''data:{"response":"Hi"}'', js ''data: {"response":"Hi"}'']
       = [Enqueue (JString (js ''Hi''))]
   \<and> deltas (stream_events [wire ''data:{"response":"Hi"}\<newline>'']) = []\<close>
proof -
  have h: \<open>\<not> startsWith (trim (js ''data:{"response":"Hi"}'')) (js ''data: '')\<close>
    by code_simp
  have e: \<open>for_lines [js ''data: {"response":"Hi"}''] = [Enqueue (JString (js ''Hi''))]\<close>
    by code_simp
  have s: \<open>deltas (stream_events [wire ''data:{"response":"Hi"}\<newline>'']) = []\<close>
    by code_simp
  show ?thesis
    using strict_data_prefix [OF h, of \<open>[js ''data: {"response":"Hi"}'']\<close>] e s by simp
qed

section \<open>Content extraction\<close>

lemma field_undefined [simp]: "field JUndefined path = JUndefined"
proof (cases path)
  case Nil
  then show ?thesis by simp
next
  case (Cons s rest)
  then show ?thesis by (cases s) simp_all
qed

lemma field_Cons: "field v (s # path) = field (field v [s]) path"
  by (simp split: sum.splits)

lemma optional_access: "optional (access s) v = Inr (field v [s])"
  by (cases s; cases v rule: element0.cases) (simp_all add: optional_def nullish_def)

lemma access_total: "\<not> nullish v \<Longrightarrow> access s v = Inr (field v [s])"
  using optional_access [of s v] by (simp add: optional_def)

lemma access_nullish: "nullish v \<Longrightarrow> access s v = Inl TypeError"
  by (cases s) (auto simp: nullish_def)

lemma member_access: "member name = access (Key name)" "element0 = access First"
  by (simp_all add: fun_eq_iff)

lemma content_of_total:
  assumes "\<not> nullish data"
  shows "content_of data = Inr (extracted data)"
proof -
  let ?a = "field data [Key (js ''choices''), First, Key (js ''delta''), Key (js ''content'')]"
  let ?b = "field data [Key (js ''message''), Key (js ''content'')]"
  let ?c = "field data [Key (js ''response'')]"
  have a: "?a = field (field (field (field data [Key (js ''choices'')]) [First])
                 [Key (js ''delta'')]) [Key (js ''content'')]"
    by (simp only: field_Cons [of _ _ "_ # _"])
  have b: "?b = field (field data [Key (js ''message'')]) [Key (js ''content'')]"
    by (simp only: field_Cons [of _ _ "_ # _"])
  have "content_of data =
      Inr (if truthy ?a then ?a else if truthy ?b then ?b else if truthy ?c then ?c else JString [])"
    unfolding a b
    by (simp add: content_of_def member_access and_then_def optional_access access_total [OF assms]
          del: field.simps access.simps)
  then show ?thesis
    by (simp add: extracted_def candidates_def del: field.simps)
qed

lemma content_of_nullish: "nullish data \<Longrightarrow> content_of data = Inl TypeError"
  by (simp add: content_of_def member_access access_nullish and_then_def del: access.simps)

lemma extracted_truthy: "truthy (extracted data) \<longleftrightarrow> find truthy (candidates data) \<noteq> None"
proof (cases "find truthy (candidates data)")
  case None
  then show ?thesis by (simp add: extracted_def)
next
  case (Some c)
  then have "truthy c" by (auto simp: find_Some_iff)
  with Some show ?thesis by (simp add: extracted_def)
qed

lemma try_catch_parsed:
  assumes "JSON_parse (slice trimmedLine 6) = Inr data"
  shows "try_catch trimmedLine =
     (if nullish data then [ErrorParsingSSEMessage trimmedLine, ParseError TypeError]
      else case find truthy (candidates data) of
             None \<Rightarrow> []
           | Some content \<Rightarrow>
               if stringable content then [Enqueue content]
               else [ErrorParsingSSEMessage trimmedLine, ParseError TypeError])"
proof (cases "nullish data")
  case True
  then show ?thesis
    using assms by (simp add: try_catch_def try_block_def and_then_def content_of_nullish)
next
  case False
  note total = content_of_total [OF False]
  show ?thesis
  proof (cases "find truthy (candidates data)")
    case None
    then have "extracted data = JString []"
      by (simp add: extracted_def)
    then show ?thesis
      using assms False None by (simp add: try_catch_def try_block_def and_then_def total)
  next
    case (Some content)
    then have "extracted data = content"
      by (simp add: extracted_def)
    moreover from Some have "truthy content"
      by (auto simp: find_Some_iff)
    ultimately show ?thesis
      using assms False Some
      by (simp add: try_catch_def try_block_def and_then_def total encode_def)
  qed
qed

lemma candidates_nullish: "nullish data \<Longrightarrow> find truthy (candidates data) = None"
  by (auto simp: candidates_def nullish_def)

lemma deltas_try_catch:
  assumes "JSON_parse (slice trimmedLine 6) = Inr data"
  shows "deltas (try_catch trimmedLine) = filter stringable (first_match data)"
proof (cases "nullish data")
  case True
  then show ?thesis
    by (simp add: try_catch_parsed [OF assms] first_match_def candidates_nullish)
next
  case False
  then show ?thesis
    by (simp add: try_catch_parsed [OF assms] first_match_def split: option.splits)
qed

lemma at_most_one_delta: "length (deltas (try_catch trimmedLine)) \<le> 1"
  by (simp add: try_catch_def try_block_def and_then_def encode_def split: sum.splits)

lemma line_events_cases:
  "line_events line =
     (if startsWith (trim line) (js ''data: '') \<and> \<not> is_sentinel line then try_catch (trim line)
      else [])"
proof -
  have "\<not> startsWith [] (js ''data: '')"
    by (simp add: startsWith_def js_def)
  then show ?thesis
    by (auto simp: line_events_def is_sentinel_def Let_def)
qed

lemma parse_defined:
  "parse_value st ts = Some v \<Longrightarrow> v \<noteq> JUndefined"
  "parse_after x st ts = Some v \<Longrightarrow> x \<noteq> JUndefined \<Longrightarrow> v \<noteq> JUndefined"
proof (induction st ts and x st ts arbitrary: v and v rule: parse_value_parse_after.induct)
  case (1 st)
  then show ?case by simp
next
  case (2 st t ts)
  show ?case
  proof (cases t)
    case LBrace
    show ?thesis
    proof (cases ts)
      case Nil
      with "2.prems" LBrace show ?thesis by simp
    next
      case (Cons t1 ts1)
      show ?thesis
      proof (cases t1)
        case RBrace
        with "2.IH" "2.prems" LBrace Cons show ?thesis by simp
      next
        case (TString k)
        show ?thesis
        proof (cases ts1)
          case Nil
          with "2.prems" LBrace \<open>ts = t1 # ts1\<close> TString show ?thesis by simp
        next
          case (Cons t2 ts2)
          show ?thesis
          proof (cases t2)
            case Colon
            with "2.IH" "2.prems" LBrace \<open>ts = t1 # ts1\<close> TString Cons
            show ?thesis by simp
          qed (use "2.prems" LBrace \<open>ts = t1 # ts1\<close> TString Cons in simp_all)
        qed
      qed (use "2.prems" LBrace Cons in simp_all)
    qed
  next
    case LBracket
    show ?thesis
    proof (cases ts)
      case Nil
      with "2.IH" "2.prems" LBracket show ?thesis by simp
    next
      case (Cons t1 ts1)
      show ?thesis
      proof (cases t1)
        case RBracket
        with "2.IH" "2.prems" LBracket Cons show ?thesis by simp
      qed (use "2.IH" "2.prems" LBracket Cons in simp_all)
    qed
  qed (use "2.IH" "2.prems" in simp_all)
next
  case (3 v ts)
  then show ?case by (simp split: if_splits)
next
  case (4 v vs st ts)
  show ?case
  proof (cases ts)
    case Nil
    with "4.prems" show ?thesis by simp
  next
    case (Cons t1 ts1)
    with "4.IH" "4.prems" show ?thesis by (cases t1) simp_all
  qed
next
  case (5 v ms k st ts)
  show ?case
  proof (cases ts)
    case Nil
    with "5.prems" show ?thesis by simp
  next
    case (Cons t1 ts1)
    show ?thesis
    proof (cases t1)
      case RBrace
      with "5.IH" "5.prems" Cons show ?thesis by simp
    next
      case Comma
      show ?thesis
      proof (cases ts1)
        case Nil
        with "5.prems" \<open>ts = t1 # ts1\<close> Comma show ?thesis by simp
      next
        case (Cons t2 ts2)
        note c2 = this
        show ?thesis
        proof (cases t2)
          case (TString k')
          show ?thesis
          proof (cases ts2)
            case Nil
            with "5.prems" \<open>ts = t1 # ts1\<close> Comma c2 TString show ?thesis by simp
          next
            case (Cons t3 ts3)
            with "5.IH" "5.prems" \<open>ts = t1 # ts1\<close> Comma c2 TString show ?thesis
              by (cases t3) simp_all
          qed
        qed (use "5.prems" \<open>ts = t1 # ts1\<close> Comma c2 in simp_all)
      qed
    qed (use "5.prems" Cons in simp_all)
  qed
qed

lemma JSON_parse_defined: "JSON_parse s = Inr data \<Longrightarrow> data \<noteq> JUndefined"
  by (auto simp: JSON_parse_def split: option.splits dest: parse_defined(1))

text \<open>
  Claim C2 (dual-shape ordered extraction). For a data line whose payload
  \<^verbatim>\<open>JSON.parse\<close> accepts, the content is taken from
  \<^verbatim>\<open>choices[0].delta.content\<close>, \<^verbatim>\<open>message.content\<close> and \<^verbatim>\<open>response\<close>, tried in
  this order, a field that is missing counting as \<^verbatim>\<open>undefined\<close>: it is the first
  truthy one, and the empty string where none is truthy. A string is truthy exactly
  when it is not empty. The delta of the line is that first match, as soon as
  \<^verbatim>\<open>encode\<close> can convert it to a string, which it can for every string; where no field
  is truthy there is no delta. The four payloads of the claim give "Hi", "Hi", "Hi" and
  no delta.
\<close>

theorem dual_shape_extraction:
  assumes "startsWith (trim line) (js ''data: '')" and "\<not> is_sentinel line"
    and "JSON_parse (slice (trim line) 6) = Inr data"
  shows "(data \<noteq> JNull \<longrightarrow> content_of data = Inr (extracted data))
       \<and> deltas (line_events line) = filter stringable (first_match data)"
proof -
  have "data \<noteq> JUndefined"
    using assms(3) by (rule JSON_parse_defined)
  then have "data \<noteq> JNull \<longrightarrow> content_of data = Inr (extracted data)"
    by (simp add: content_of_total nullish_def)
  moreover have "deltas (line_events line) = filter stringable (first_match data)"
    using assms by (simp add: line_events_cases deltas_try_catch)
  ultimately show ?thesis
    by blast
qed

theorem dual_shape_extraction_witness:
  \<open>deltas (line_events (js ''data: {"choices":[{"delta":{"content":"Hi"}}]}''))
     = [JString (js ''Hi'')]
   \<and> deltas (line_events (js ''data: {"message":{"content":"Hi"}}'')) = [JString (js ''Hi'')]
   \<and> deltas (line_events (js ''data: {"response":"Hi"}'')) = [JString (js ''Hi'')]
   \<and> deltas (line_events (js ''data: {"role":"assistant"}'')) = []
   \<and> deltas (line_events
        (js ''data: {"choices":[{"delta":{"content":""}}],"message":{"content":"B"},"response":"C"}''))
     = [JString (js ''B'')]
   \<and> deltas (line_events (js ''data: {"response":{"toString":1}}'')) = []\<close>
proof -
  let ?l1 = \<open>js ''data: {"choices":[{"delta":{"content":"Hi"}}]}''\<close>
  let ?l2 = \<open>js ''data: {"message":{"content":"Hi"}}''\<close>
  let ?l3 = \<open>js ''data: {"response":"Hi"}''\<close>
  let ?l4 = \<open>js ''data: {"role":"assistant"}''\<close>
  let ?l5 = \<open>js ''data: {"choices":[{"delta":{"content":""}}],"message":{"content":"B"},"response":"C"}''\<close>
  let ?l6 = \<open>js ''data: {"response":{"toString":1}}''\<close>
  let ?v1 = \<open>JObject [(js ''choices'',
      JArray [JObject [(js ''delta'', JObject [(js ''content'', JString (js ''Hi''))])]])]\<close>
  let ?v2 = \<open>JObject [(js ''message'', JObject [(js ''content'', JString (js ''Hi''))])]\<close>
  let ?v3 = \<open>JObject [(js ''response'', JString (js ''Hi''))]\<close>
  let ?v4 = \<open>JObject [(js ''role'', JString (js ''assistant''))]\<close>
  let ?v5 = \<open>JObject [(js ''choices'',
      JArray [JObject [(js ''delta'', JObject [(js ''content'', JString [])])]]),
      (js ''message'', JObject [(js ''content'', JString (js ''B''))]),
      (js ''response'', JString (js ''C''))]\<close>
  let ?v6 = \<open>JObject [(js ''response'', JObject [(js ''toString'', JNumber 1 0)])]\<close>
  have p: "startsWith (trim ?l1) (js ''data: '')" "startsWith (trim ?l2) (js ''data: '')"
    "startsWith (trim ?l3) (js ''data: '')" "startsWith (trim ?l4) (js ''data: '')"
    "startsWith (trim ?l5) (js ''data: '')" "startsWith (trim ?l6) (js ''data: '')"
    by code_simp+
  have n: "\<not> is_sentinel ?l1" "\<not> is_sentinel ?l2" "\<not> is_sentinel ?l3" "\<not> is_sentinel ?l4"
    "\<not> is_sentinel ?l5" "\<not> is_sentinel ?l6"
    by code_simp+
  have j1: "JSON_parse (slice (trim ?l1) 6) = Inr ?v1"
    by code_simp
  have j2: "JSON_parse (slice (trim ?l2) 6) = Inr ?v2"
    by code_simp
  have j3: "JSON_parse (slice (trim ?l3) 6) = Inr ?v3"
    by code_simp
  have j4: "JSON_parse (slice (trim ?l4) 6) = Inr ?v4"
    by code_simp
  have j5: "JSON_parse (slice (trim ?l5) 6) = Inr ?v5"
    by code_simp
  have j6: "JSON_parse (slice (trim ?l6) 6) = Inr ?v6"
    by code_simp
  have m: "filter stringable (first_match ?v1) = [JString (js ''Hi'')]"
    "filter stringable (first_match ?v2) = [JString (js ''Hi'')]"
    "filter stringable (first_match ?v3) = [JString (js ''Hi'')]"
    "filter stringable (first_match ?v4) = []"
    "filter stringable (first_match ?v5) = [JString (js ''B'')]"
    "filter stringable (first_match ?v6) = []"
    by code_simp+
  show ?thesis
    using dual_shape_extraction [OF p(1) n(1) j1] dual_shape_extraction [OF p(2) n(2) j2]
      dual_shape_extraction [OF p(3) n(3) j3] dual_shape_extraction [OF p(4) n(4) j4]
      dual_shape_extraction [OF p(5) n(5) j5] dual_shape_extraction [OF p(6) n(6) j6]
    unfolding m by blast
qed

text \<open>
  Claim C9 (extractor totality), as the code has it. For every value that
  \<^verbatim>\<open>JSON.parse\<close> returns other than \<^verbatim>\<open>null\<close>, of any shape, the expression of line 50
  does not throw: its value is the first truthy one of the three fields, or the empty
  string. For \<^verbatim>\<open>null\<close>, \<^verbatim>\<open>data.choices\<close> throws a TypeError, which the catch block
  logs. The whole outcome of the \<^verbatim>\<open>try\<close> for a parsed payload follows: nothing at
  all, no delta and no log, where every field is missing or falsy; the first truthy
  field as the one delta where \<^verbatim>\<open>encode\<close> can convert it to a string; and the two
  log lines with a TypeError, without a delta, for \<^verbatim>\<open>null\<close> and for a truthy field
  that \<^verbatim>\<open>encode\<close> cannot convert. No line has more than one delta. Strings, numbers
  and booleans always convert.
\<close>

theorem extractor_totality:
  assumes "JSON_parse (slice trimmedLine 6) = Inr data"
  shows "(data \<noteq> JNull \<longrightarrow> content_of data = Inr (extracted data))
       \<and> (data = JNull \<longrightarrow> content_of data = Inl TypeError)
       \<and> try_catch trimmedLine =
           (if data = JNull then [ErrorParsingSSEMessage trimmedLine, ParseError TypeError]
            else case find truthy (candidates data) of
                   None \<Rightarrow> []
                 | Some content \<Rightarrow>
                     if stringable content then [Enqueue content]
                     else [ErrorParsingSSEMessage trimmedLine, ParseError TypeError])
       \<and> length (deltas (try_catch trimmedLine)) \<le> 1
       \<and> stringable (JString s) \<and> stringable (JNumber m e) \<and> stringable (JBoolean b)"
proof -
  have defined: "data \<noteq> JUndefined"
    using assms by (rule JSON_parse_defined)
  then have null: "nullish data \<longleftrightarrow> data = JNull"
    by (simp add: nullish_def)
  have a: "data \<noteq> JNull \<longrightarrow> content_of data = Inr (extracted data)"
    using null by (simp add: content_of_total)
  have b: "data = JNull \<longrightarrow> content_of data = Inl TypeError"
    by (simp add: content_of_nullish nullish_def)
  have c: "try_catch trimmedLine =
      (if data = JNull then [ErrorParsingSSEMessage trimmedLine, ParseError TypeError]
       else case find truthy (candidates data) of
              None \<Rightarrow> []
            | Some content \<Rightarrow>
                if stringable content then [Enqueue content]
                else [ErrorParsingSSEMessage trimmedLine, ParseError TypeError])"
    using try_catch_parsed [OF assms] null by simp
  have d: "length (deltas (try_catch trimmedLine)) \<le> 1"
    by (rule at_most_one_delta)
  show ?thesis
    using a b c d by simp
qed

theorem extractor_totality_witness:
  \<open>content_of (JNumber 5 0) = Inr (JString [])
   \<and> content_of (JObject [(js ''choices'', JString (js ''x''))]) = Inr (JString [])
   \<and> content_of (JObject [(js ''choices'', JArray [])]) = Inr (JString [])
   \<and> try_catch (js ''data: 5'') = []
   \<and> try_catch (js ''data: {"choices":"x"}'') = []
   \<and> try_catch (js ''data: {"choices":[]}'') = []
   \<and> try_catch (js ''data: {"response":""}'') = []
   \<and> try_catch (js ''data: {"response":5}'') = [Enqueue (JNumber 5 0)]
   \<and> try_catch (js ''data: {"response":{"toString":1}}'')
       = [ErrorParsingSSEMessage (js ''data: {"response":{"toString":1}}''), ParseError TypeError]
   \<and> try_catch (js ''data: null'')
       = [ErrorParsingSSEMessage (js ''data: null''), ParseError TypeError]\<close>
proof -
  let ?v2 = \<open>JObject [(js ''choices'', JString (js ''x''))]\<close>
  let ?v3 = \<open>JObject [(js ''choices'', JArray [])]\<close>
  let ?v4 = \<open>JObject [(js ''response'', JString [])]\<close>
  let ?v5 = \<open>JObject [(js ''response'', JNumber 5 0)]\<close>
  let ?v6 = \<open>JObject [(js ''response'', JObject [(js ''toString'', JNumber 1 0)])]\<close>
  have j: \<open>JSON_parse (slice (js ''data: 5'') 6) = Inr (JNumber 5 0)\<close>
    \<open>JSON_parse (slice (js ''data: {"choices":"x"}'') 6) = Inr ?v2\<close>
    \<open>JSON_parse (slice (js ''data: {"choices":[]}'') 6) = Inr ?v3\<close>
    \<open>JSON_parse (slice (js ''data: {"response":""}'') 6) = Inr ?v4\<close>
    \<open>JSON_parse (slice (js ''data: {"response":5}'') 6) = Inr ?v5\<close>
    \<open>JSON_parse (slice (js ''data: {"response":{"toString":1}}'') 6) = Inr ?v6\<close>
    \<open>JSON_parse (slice (js ''data: null'') 6) = Inr JNull\<close>
    by code_simp+
  have e: \<open>extracted (JNumber 5 0) = JString []\<close> \<open>extracted ?v2 = JString []\<close>
    \<open>extracted ?v3 = JString []\<close>
    by code_simp+
  have f: \<open>find truthy (candidates (JNumber 5 0)) = None\<close>
    \<open>find truthy (candidates ?v2) = None\<close> \<open>find truthy (candidates ?v3) = None\<close>
    \<open>find truthy (candidates ?v4) = None\<close>
    \<open>find truthy (candidates ?v5) = Some (JNumber 5 0)\<close>
    \<open>find truthy (candidates ?v6) = Some (JObject [(js ''toString'', JNumber 1 0)])\<close>
    by code_simp+
  have g: \<open>stringable (JNumber 5 0)\<close>
    \<open>\<not> stringable (JObject [(js ''toString'', JNumber 1 0)])\<close>
    by code_simp+
  show ?thesis
    using extractor_totality [OF j(1)] extractor_totality [OF j(2)] extractor_totality [OF j(3)]
      extractor_totality [OF j(4)] extractor_totality [OF j(5)] extractor_totality [OF j(6)]
      extractor_totality [OF j(7)]
    unfolding e f by (simp add: g)
qed

text \<open>
  The claim as stated, that the expression does not throw for any parsed value, fails for
  the payload \<^verbatim>\<open>null\<close>.
\<close>

theorem extractor_totality_counterexample:
  \<open>JSON_parse (js ''null'') = Inr JNull \<and> content_of JNull = Inl TypeError\<close>
  by code_simp

section \<open>Newline-delimited JSON\<close>













section \<open>Upstream rejection\<close>

lemma POST_catch_shape:
  "\<exists>m d. POST_catch error
     = NextResponse_json (JObject [(js ''error'', JString m), (js ''details'', JString d)]) 500"
  by (simp add: POST_catch_def)

lemma new_Error_caught:
  "POST_catch (new_Error (a @ js '' API error: '' @ errorData))
   = NextResponse_json
       (JObject [(js ''error'', JString (a @ js '' API error: '' @ errorData)),
                 (js ''details'', JString (js ''Error: '' @ a @ js '' API error: '' @ errorData))])
       500"
  by (simp add: POST_catch_def new_Error_def error_toString_def js_def)

text \<open>
  Claim C8 (pre-stream failure surface). When the request was read and prepared and the
  upstream answers the chat call with a response whose \<^verbatim>\<open>ok\<close> is false, \<^verbatim>\<open>POST\<close>
  returns \<^verbatim>\<open>NextResponse.json\<close> with status 500 and an object of exactly the two
  fields \<^verbatim>\<open>error\<close> and \<^verbatim>\<open>details\<close>, both strings; it never returns the streaming
  response. When the body of the rejection can be read, \<^verbatim>\<open>error\<close> is the provider's
  name, \<^verbatim>\<open> API error: \<close> and that body, and \<^verbatim>\<open>details\<close> is the same behind
  \<^verbatim>\<open>Error: \<close>; when reading it throws, the thrown error is reported the same way.
\<close>

theorem upstream_rejection:
  assumes "req_json env = Inr request"
    and "additionalContext env (messages request) = Inr context"
    and "chat_fetch env (chat_endpoint env)
           (request_body request (finalMessages env request context)) = Inr response"
    and "\<not> ok response"
  shows "(\<exists>m d. POST env
            = NextResponse_json
                (JObject [(js ''error'', JString m), (js ''details'', JString d)]) 500)
       \<and> (\<forall>events. POST env \<noteq> StreamingTextResponse events)
       \<and> (body_text response = Inr errorData \<longrightarrow>
            POST env
            = NextResponse_json
                (JObject
                  [(js ''error'',
                    JString (api_name (chat_endpoint env) @ js '' API error: '' @ errorData)),
                   (js ''details'',
                    JString (js ''Error: '' @ api_name (chat_endpoint env)
                             @ js '' API error: '' @ errorData))])
                500)
       \<and> (body_text response = Inl error \<longrightarrow> POST env = POST_catch error)"
proof -
  let ?thrown = "case body_text response of
      Inl error \<Rightarrow> error
    | Inr errorData \<Rightarrow> new_Error (api_name (chat_endpoint env) @ js '' API error: '' @ errorData)"
  have "POST_try env = Inl ?thrown"
    using assms by (simp add: POST_try_def and_then_def respond_def split: sum.splits)
  then have caught: "POST env = POST_catch ?thrown"
    by (simp add: POST_def)
  have shape: "\<exists>m d. POST env
      = NextResponse_json (JObject [(js ''error'', JString m), (js ''details'', JString d)]) 500"
    unfolding caught by (rule POST_catch_shape)
  then have no_stream: "\<forall>events. POST env \<noteq> StreamingTextResponse events"
    by auto
  have text_read: "body_text response = Inr errorData \<longrightarrow>
      POST env = NextResponse_json
        (JObject
          [(js ''error'',
            JString (api_name (chat_endpoint env) @ js '' API error: '' @ errorData)),
           (js ''details'',
            JString (js ''Error: '' @ api_name (chat_endpoint env)
                     @ js '' API error: '' @ errorData))])
        500"
    using caught by (auto simp: new_Error_caught)
  have text_failed: "body_text response = Inl error \<longrightarrow> POST env = POST_catch error"
    using caught by auto
  show ?thesis
    using shape no_stream text_read text_failed by blast
qed

theorem upstream_rejection_witness:
  "POST rejecting_environment
   = NextResponse_json
       (JObject [(js ''error'', JString (js ''Ollama API error: model not found'')),
                 (js ''details'', JString (js ''Error: Ollama API error: model not found''))])
       500"
proof -
  let ?request = "\<lparr>messages = [JObject [(js ''role'', JString (js ''user'')),
                                         (js ''content'', JString (js ''hello''))]],
                  model = JString (js ''mistral:latest''),
                  temperature = JNumber 2 (- 1),
                  contextWindow = JNumber 4096 0,
                  systemPrompt = JString [],
                  stream = JBoolean True\<rparr>"
  let ?response = "\<lparr>ok = False, body_text = Inr (js ''model not found''),
              body_json = Inl (new_Error []), body = Some []\<rparr>"
  have h1: "req_json rejecting_environment = Inr ?request"
    by (simp add: rejecting_environment_def)
  have h2: "additionalContext rejecting_environment (messages ?request) = Inr (JString [])"
    by (simp add: additionalContext_def rejecting_environment_def)
  have h3: "chat_fetch rejecting_environment (chat_endpoint rejecting_environment)
      (request_body ?request (finalMessages rejecting_environment ?request (JString [])))
      = Inr ?response"
    by (simp add: rejecting_environment_def)
  have h4: "\<not> ok ?response"
    by simp
  have t: "body_text ?response = Inr (js ''model not found'')"
    by simp
  have a: "api_name (chat_endpoint rejecting_environment) = js ''Ollama''"
    by (simp add: api_name_def chat_endpoint_def provider_def rejecting_environment_def)
  have s: "js ''Ollama'' @ js '' API error: '' @ js ''model not found''
             = js ''Ollama API error: model not found''"
    "js ''Error: '' @ js ''Ollama API error: model not found''
             = js ''Error: Ollama API error: model not found''"
    by (simp_all add: js_def)
  show ?thesis
    using upstream_rejection [OF h1 h2 h3 h4, of "js ''model not found''"] t
    unfolding a s by blast
qed

end
